theory Spec2Isabelle
  imports Main "HOL-Library.Word"
begin

unbundle bit_operations_syntax

section \<open>The protocol engine of joycontrol/protocol.go\<close>

text \<open>
  The engine answers the subcommands a console sends to an emulated controller. Three
  goroutines share one \<open>Protocol\<close> value: \<open>sendEmptyReport\<close> (one report after a
  ticker fires), \<open>readOutputReport\<close> (the read and dispatch loop) and
  \<open>processInputQueue\<close> (the writer loop). They meet at the buffered channel
  \<open>queue\<close>.

  Sequential code is embedded as functions that take the \<open>Protocol\<close> value and return
  the updated one together with the reports they send on \<open>queue\<close>, in order. The
  goroutines are embedded as step functions on a \<open>System\<close> state, where a send on a
  full channel and a receive on an empty one are not enabled.
\<close>

subsection \<open>Bytes, time and integer arithmetic of Go\<close>

type_synonym byte = "8 word"

text \<open>
  A \<open>time.Time\<close> is an instant in nanoseconds, a \<open>time.Duration\<close> a signed 64-bit
  count of nanoseconds. \<open>Time.Sub\<close> saturates at the bounds of \<open>Duration\<close>.
\<close>

type_synonym time = int

definition maxDuration :: int where
  "maxDuration = 2 ^ 63 - 1"

definition minDuration :: int where
  "minDuration = - (2 ^ 63)"

definition time_Second :: int where
  "time_Second = 1000000000"

definition time_Sub :: "time \<Rightarrow> time \<Rightarrow> int" where
  "time_Sub t u =
     (if t - u > maxDuration then maxDuration
      else if t - u < minDuration then minDuration
      else t - u)"

text \<open>Integer division of Go rounds towards zero.\<close>

definition go_quot :: "int \<Rightarrow> int \<Rightarrow> int" where
  "go_quot a b =
     (if (a < 0) = (b < 0) then \<bar>a\<bar> div \<bar>b\<bar> else - (\<bar>a\<bar> div \<bar>b\<bar>))"

subsection \<open>Reports\<close>

text \<open>
  Modelled from the spec: the identifiers of output reports, of input reports and of
  subcommands are constants declared outside protocol.go. Each family is a datatype
  with one constructor per constant that protocol.go names and one constructor for
  every other byte.
\<close>

datatype OutputReportId =
    RumbleAndSubcommand
  | UpdateNFCPacket
  | RumbleOnly
  | RequestNFCData
  | OtherOutputReportId byte

datatype Subcommand =
    RequestDeviceInfo
  | SetInputReportMode
  | TriggerButtonsElapsedTime
  | SetShipmentLowPowerState
  | SpiFlashRead
  | SetNfcMcuConfig
  | SetNfcMcuState
  | SetPlayerLights
  | EnableImu
  | EnableVibration
  | OtherSubcommand byte

datatype InputReportId = StandardFullMode | SubcommandReplies

text \<open>
  Modelled from the spec: the type \<open>OutputReport\<close> and its accessors \<open>getSubcommand\<close>
  and \<open>getSubcommandData\<close> are declared outside protocol.go. An output report is the
  triple of what protocol.go reads from it: the report id, the subcommand id and the
  payload, a byte slice of any length.
\<close>

record OutputReport =
  id_out :: OutputReportId
  getSubcommand :: Subcommand
  getSubcommandData :: "byte list"

text \<open>
  Modelled from the spec: the type \<open>InputReport\<close> and its builders
  (\<open>AllocStandardReport\<close>, \<open>setReportId\<close>, \<open>setImuData\<close>, \<open>fillStandardData\<close>
  and the \<open>ack\<close> family) are declared outside protocol.go. An input report is the
  record of the builder calls made on it, each with its arguments; the byte layout is the
  codec's. The builders are total here: what the codec does on a short payload or a
  short address is not part of protocol.go.
\<close>

datatype Ack =
    AckDeviceInfo "byte list"
  | AckSetInputReportMode
  | AckTriggerButtonsElapsedTime
  | AckSetShipmentLowPowerState
  | AckSpiFlashRead "byte list"
  | AckSetNfcMcuConfig
  | AckSetNfcMcuState
  | AckSetPlayerLights
  | AckEnableImu
  | AckEnableVibration

record InputReport =
  reportId :: "InputReportId option"
  imuData :: "bool option"
  standardData :: "(int \<times> bool) option"
  ack :: "Ack option"

definition AllocStandardReport :: InputReport where
  \<comment> \<open>Modelled from the spec: a fresh standard report, no builder applied yet.\<close>
  "AllocStandardReport =
     \<lparr>reportId = None, imuData = None, standardData = None, ack = None\<rparr>"

definition setReportId :: "InputReportId \<Rightarrow> InputReport \<Rightarrow> InputReport" where
  \<comment> \<open>Modelled from the spec: tags the report with its report id.\<close>
  "setReportId i r = r\<lparr>reportId := Some i\<rparr>"

definition setImuData :: "bool \<Rightarrow> InputReport \<Rightarrow> InputReport" where
  \<comment> \<open>Modelled from the spec: applies the motion-sensor flag to the report.\<close>
  "setImuData b r = r\<lparr>imuData := Some b\<rparr>"

definition fillStandardData :: "int \<Rightarrow> bool \<Rightarrow> InputReport \<Rightarrow> InputReport" where
  \<comment> \<open>Modelled from the spec: fills the common header from the timer and the
      device-info flag.\<close>
  "fillStandardData t d r = r\<lparr>standardData := Some (t, d)\<rparr>"

definition setAck :: "Ack \<Rightarrow> InputReport \<Rightarrow> InputReport" where
  \<comment> \<open>Modelled from the spec: the acknowledgment payload an \<open>ack\<close> builder appends.\<close>
  "setAck a r = r\<lparr>ack := Some a\<rparr>"

definition ackDeviceInfo :: "byte list \<Rightarrow> InputReport \<Rightarrow> InputReport" where
  \<comment> \<open>Modelled from the spec: device identity and MAC address.\<close>
  "ackDeviceInfo mac = setAck (AckDeviceInfo mac)"

definition ackSetInputReportMode :: "InputReport \<Rightarrow> InputReport" where
  \<comment> \<open>Modelled from the spec: generic acknowledgment.\<close>
  "ackSetInputReportMode = setAck AckSetInputReportMode"

definition ackTriggerButtonsElapsedTime :: "InputReport \<Rightarrow> InputReport" where
  \<comment> \<open>Modelled from the spec: generic acknowledgment.\<close>
  "ackTriggerButtonsElapsedTime = setAck AckTriggerButtonsElapsedTime"

definition ackSetShipmentLowPowerState :: "InputReport \<Rightarrow> InputReport" where
  \<comment> \<open>Modelled from the spec: generic acknowledgment.\<close>
  "ackSetShipmentLowPowerState = setAck AckSetShipmentLowPowerState"

definition ackSpiFlashRead :: "byte list \<Rightarrow> InputReport \<Rightarrow> InputReport" where
  \<comment> \<open>Modelled from the spec: the answer to a flash read, built from the payload.\<close>
  "ackSpiFlashRead data = setAck (AckSpiFlashRead data)"

definition ackSetNfcMcuConfig :: "InputReport \<Rightarrow> InputReport" where
  \<comment> \<open>Modelled from the spec: generic acknowledgment.\<close>
  "ackSetNfcMcuConfig = setAck AckSetNfcMcuConfig"

definition ackSetNfcMcuState :: "InputReport \<Rightarrow> InputReport" where
  \<comment> \<open>Modelled from the spec: generic acknowledgment.\<close>
  "ackSetNfcMcuState = setAck AckSetNfcMcuState"

definition ackSetPlayerLights :: "InputReport \<Rightarrow> InputReport" where
  \<comment> \<open>Modelled from the spec: generic acknowledgment.\<close>
  "ackSetPlayerLights = setAck AckSetPlayerLights"

definition ackEnableImu :: "InputReport \<Rightarrow> InputReport" where
  \<comment> \<open>Modelled from the spec: generic acknowledgment.\<close>
  "ackEnableImu = setAck AckEnableImu"

definition ackEnableVibration :: "InputReport \<Rightarrow> InputReport" where
  \<comment> \<open>Modelled from the spec: generic acknowledgment.\<close>
  "ackEnableVibration = setAck AckEnableVibration"

subsection \<open>The buffered channel\<close>

text \<open>
  \<open>make(chan *InputReport, n)\<close>: a first-in-first-out buffer of capacity \<open>n\<close>. A send
  is enabled when the buffer holds fewer than \<open>n\<close> elements and appends at the back; a
  receive is enabled when the buffer is not empty and takes from the front. \<open>None\<close>
  says that the operation is not enabled: the goroutine stays suspended at it.
\<close>

record Chan =
  buf :: "InputReport list"
  cap :: nat

definition make_chan :: "nat \<Rightarrow> Chan" where
  "make_chan n = \<lparr>buf = [], cap = n\<rparr>"

definition chan_send :: "Chan \<Rightarrow> InputReport \<Rightarrow> Chan option" where
  "chan_send c r =
     (if length (buf c) < cap c then Some (c\<lparr>buf := buf c @ [r]\<rparr>) else None)"

definition chan_recv :: "Chan \<Rightarrow> (InputReport \<times> Chan) option" where
  "chan_recv c = (case buf c of [] \<Rightarrow> None | r # rs \<Rightarrow> Some (r, c\<lparr>buf := rs\<rparr>))"

subsection \<open>The protocol state\<close>

text \<open>
  The fields of \<open>Protocol\<close>, without the file descriptors \<open>itr\<close> and \<open>ctrl\<close> (the
  channel they name is the environment below) and without \<open>output\<close> (the report that
  \<open>load\<close> fills is passed to the functions that read it).
\<close>

record Protocol =
  lastTime :: time
  elapsed :: int
  reportReceived :: bool
  deviceInfoRequired :: bool
  imuEnabled :: bool
  queue :: Chan
  macAddr :: "byte list"

definition NewProtocol :: Protocol where
  "NewProtocol =
     \<lparr>lastTime = 0, elapsed = 0, reportReceived = False, deviceInfoRequired = False,
      imuEnabled = False, queue = make_chan 5, macAddr = []\<rparr>"

datatype panic = IndexOutOfRange

subsection \<open>The timer\<close>

definition updateTimer :: "Protocol \<Rightarrow> time \<Rightarrow> Protocol" where
  "updateTimer p now =
     (let duration = time_Sub now (lastTime p);
          p = p\<lparr>elapsed := go_quot duration 4 AND 0xFF\<rparr>;
          p = p\<lparr>elapsed := 0xFF\<rparr>
      in p\<lparr>lastTime := now\<rparr>)"

subsection \<open>The handlers\<close>

text \<open>
  A handler returns the protocol state and the list of reports it sends on \<open>queue\<close>,
  in the order of the sends. \<open>processStandardFullReport\<close> has a value receiver: it
  reads a copy of the state and changes nothing.
\<close>

definition processStandardFullReport :: "Protocol \<Rightarrow> InputReport list" where
  "processStandardFullReport p =
     (let report = AllocStandardReport;
          report = setReportId StandardFullMode report;
          report = setImuData (imuEnabled p) report
      in [report])"

definition answerSetMode :: "Protocol \<Rightarrow> byte list \<Rightarrow> Protocol \<times> InputReport list" where
  "answerSetMode p data =
     (let report = AllocStandardReport;
          report = setReportId SubcommandReplies report;
          report = fillStandardData (elapsed p) (deviceInfoRequired p) report;
          report = ackSetInputReportMode report
      in (p, [report]))"

definition anwserTriggerButtonsElapsedTime :: "Protocol \<Rightarrow> Protocol \<times> InputReport list" where
  "anwserTriggerButtonsElapsedTime p =
     (let report = AllocStandardReport;
          report = setReportId SubcommandReplies report;
          report = fillStandardData (elapsed p) (deviceInfoRequired p) report;
          report = ackTriggerButtonsElapsedTime report
      in (p, [report]))"

definition answerDeviceInfo :: "Protocol \<Rightarrow> Protocol \<times> InputReport list" where
  "answerDeviceInfo p0 =
     (let p = p0\<lparr>deviceInfoRequired := True\<rparr>;
          report = AllocStandardReport;
          report = setReportId SubcommandReplies report;
          report = fillStandardData (elapsed p) (deviceInfoRequired p) report;
          report = ackDeviceInfo (macAddr p) report
      in (p, [report]))"

definition answerSetShipmentState :: "Protocol \<Rightarrow> Protocol \<times> InputReport list" where
  "answerSetShipmentState p =
     (let report = AllocStandardReport;
          report = setReportId SubcommandReplies report;
          report = fillStandardData (elapsed p) (deviceInfoRequired p) report;
          report = ackSetShipmentLowPowerState report
      in (p, [report]))"

definition answerSpiRead :: "Protocol \<Rightarrow> byte list \<Rightarrow> Protocol \<times> InputReport list" where
  "answerSpiRead p data =
     (let report = AllocStandardReport;
          report = setReportId SubcommandReplies report;
          report = fillStandardData (elapsed p) (deviceInfoRequired p) report;
          report = ackSpiFlashRead data report
      in (p, [report]))"

definition answerSetNfcMcuConfig :: "Protocol \<Rightarrow> byte list \<Rightarrow> Protocol \<times> InputReport list" where
  "answerSetNfcMcuConfig p data =
     (let report = AllocStandardReport;
          report = setReportId SubcommandReplies report;
          report = fillStandardData (elapsed p) (deviceInfoRequired p) report;
          report = ackSetNfcMcuConfig report
      in (p, [report]))"

definition answerSetNfcMcuState :: "Protocol \<Rightarrow> byte list \<Rightarrow> Protocol \<times> InputReport list" where
  "answerSetNfcMcuState p data =
     (let report = AllocStandardReport;
          report = setReportId SubcommandReplies report;
          report = fillStandardData (elapsed p) (deviceInfoRequired p) report;
          report = ackSetNfcMcuState report
      in (p, [report]))"

definition answerSetPlayerLights :: "Protocol \<Rightarrow> Protocol \<times> InputReport list" where
  "answerSetPlayerLights p =
     (let report = AllocStandardReport;
          report = setReportId SubcommandReplies report;
          report = fillStandardData (elapsed p) (deviceInfoRequired p) report;
          report = ackSetPlayerLights report
      in (p, [report]))"

text \<open>
  \<open>data[0]\<close> is read with no check of the length: on an empty slice the Go runtime
  panics with an index out of range, before anything is sent.
\<close>

definition answerEnableImu ::
  "Protocol \<Rightarrow> byte list \<Rightarrow> panic + Protocol \<times> InputReport list" where
  "answerEnableImu p0 data =
     (case data of
        [] \<Rightarrow> Inl IndexOutOfRange
      | d0 # _ \<Rightarrow>
          (let p = (if d0 = 0x01 then p0\<lparr>imuEnabled := True\<rparr> else p0);
               report = AllocStandardReport;
               report = setReportId SubcommandReplies report;
               report = fillStandardData (elapsed p) (deviceInfoRequired p) report;
               report = ackEnableImu report
           in Inr (p, [report])))"

definition answerEnableVibration :: "Protocol \<Rightarrow> Protocol \<times> InputReport list" where
  "answerEnableVibration p =
     (let report = AllocStandardReport;
          report = setReportId SubcommandReplies report;
          report = fillStandardData (elapsed p) (deviceInfoRequired p) report;
          report = ackEnableVibration report
      in (p, [report]))"

subsection \<open>The subcommand dispatcher\<close>

text \<open>\<open>now\<close> is the value that \<open>time.Now()\<close> returns inside \<open>updateTimer\<close>.\<close>

definition processSubcommandReport ::
  "Protocol \<Rightarrow> time \<Rightarrow> OutputReport \<Rightarrow> panic + Protocol \<times> InputReport list" where
  "processSubcommandReport p0 now report =
     (let p = updateTimer p0 now;
          subcommand = getSubcommand report
      in case subcommand of
           RequestDeviceInfo \<Rightarrow> Inr (answerDeviceInfo p)
         | SetInputReportMode \<Rightarrow> Inr (answerSetMode p (getSubcommandData report))
         | TriggerButtonsElapsedTime \<Rightarrow> Inr (anwserTriggerButtonsElapsedTime p)
         | SetShipmentLowPowerState \<Rightarrow> Inr (answerSetShipmentState p)
         | SpiFlashRead \<Rightarrow> Inr (answerSpiRead p (getSubcommandData report))
         | SetNfcMcuConfig \<Rightarrow> Inr (answerSetNfcMcuConfig p (getSubcommandData report))
         | SetNfcMcuState \<Rightarrow> Inr (answerSetNfcMcuState p (getSubcommandData report))
         | SetPlayerLights \<Rightarrow> Inr (answerSetPlayerLights p)
         | EnableImu \<Rightarrow> answerEnableImu p (getSubcommandData report)
         | EnableVibration \<Rightarrow> Inr (answerEnableVibration p)
         | OtherSubcommand b \<Rightarrow> Inr (p, processStandardFullReport p))"

definition recognized :: "Subcommand \<Rightarrow> bool" where
  "recognized sc = (case sc of OtherSubcommand b \<Rightarrow> False | _ \<Rightarrow> True)"

text \<open>
  The two shapes of report that protocol.go builds: a subcommand reply, with the header
  filled from a state and an acknowledgment, and the unsolicited standard report, with
  the motion-sensor flag applied.
\<close>

definition subcommandReply :: "Protocol \<Rightarrow> Ack \<Rightarrow> InputReport" where
  "subcommandReply p a =
     \<lparr>reportId = Some SubcommandReplies, imuData = None,
      standardData = Some (elapsed p, deviceInfoRequired p), ack = Some a\<rparr>"

definition standardReport :: "bool \<Rightarrow> InputReport" where
  "standardReport imu =
     \<lparr>reportId = Some StandardFullMode, imuData = Some imu,
      standardData = None, ack = None\<rparr>"

subsection \<open>The environment and the read loop\<close>

text \<open>
  What \<open>p.output.load(p.itr)\<close> returns: a loaded report, \<open>syscall.EAGAIN\<close> of the
  non-blocking descriptor, one of the three framing errors, or any other error.
\<close>

datatype read_result =
    Loaded OutputReport
  | EAGAIN
  | errEmptyData
  | errBadLengthData
  | errMalformedData
  | errOther

text \<open>
  The environment fixes what the channel does: the result of the \<open>n\<close>-th call of
  \<open>load\<close> and whether the \<open>n\<close>-th \<open>unix.Write\<close> succeeds.
\<close>

record Env =
  loadResult :: "nat \<Rightarrow> read_result"
  writeOk :: "nat \<Rightarrow> bool"

datatype loop_ctl = Continue | Return

text \<open>
  One iteration of the loop of \<open>readOutputReport\<close>, from the result of \<open>load\<close>: the
  new state, the reports sent on \<open>queue\<close>, the calls of \<open>processSubcommandReport\<close>
  made (each named by its subcommand), and whether the loop continues or returns.
\<close>

definition readOutputReport_body ::
  "Protocol \<Rightarrow> time \<Rightarrow> read_result \<Rightarrow>
     panic + Protocol \<times> InputReport list \<times> Subcommand list \<times> loop_ctl" where
  "readOutputReport_body p0 now res =
     (case res of
        EAGAIN \<Rightarrow> Inr (p0, [], [], Continue)
      | errEmptyData \<Rightarrow> Inr (p0, processStandardFullReport p0, [], Return)
      | errBadLengthData \<Rightarrow> Inr (p0, processStandardFullReport p0, [], Return)
      | errMalformedData \<Rightarrow> Inr (p0, processStandardFullReport p0, [], Return)
      | errOther \<Rightarrow> Inr (p0, [], [], Return)
      | Loaded output \<Rightarrow>
          (let p = p0\<lparr>reportReceived := True\<rparr>
           in case id_out output of
                RumbleAndSubcommand \<Rightarrow>
                  (case processSubcommandReport p now output of
                     Inl e \<Rightarrow> Inl e
                   | Inr (p', rs) \<Rightarrow> Inr (p', rs, [getSubcommand output], Continue))
              | UpdateNFCPacket \<Rightarrow> Inr (p, [], [], Continue)
              | RumbleOnly \<Rightarrow> Inr (p, [], [], Continue)
              | RequestNFCData \<Rightarrow> Inr (p, [], [], Continue)
              | OtherOutputReportId b \<Rightarrow> Inr (p, [], [], Continue)))"

subsection \<open>The three goroutines\<close>

text \<open>
  Where each goroutine stands. \<open>sendEmptyReport\<close>: before the ticker is made, waiting
  for the tick that is due at a deadline, suspended at the send of its reports, returned.
  \<open>readOutputReport\<close>: about to call \<open>load\<close>, suspended at the send of the reports
  of the current iteration (with what the loop does after them), returned, or stopped by
  a panic. \<open>processInputQueue\<close> is always at its receive.
\<close>

datatype boot_pc = BStart | BWait time | BSending "InputReport list" | BReturned

datatype reader_pc = RLoad | RSending "InputReport list" loop_ctl | RReturned | RPanicked

datatype task = Bootstrap | Reader | Writer

text \<open>
  \<open>wall\<close> is the clock that \<open>time.Now()\<close> and the ticker read. The last four fields
  are history: the number of calls of \<open>load\<close>, the subcommands dispatched, the sends
  completed on \<open>queue\<close> with the task that sent, and the writes made on the descriptor
  with their success.
\<close>

record System =
  proto :: Protocol
  wall :: time
  boot :: boot_pc
  reader :: reader_pc
  loads :: nat
  dispatched :: "Subcommand list"
  sent :: "(task \<times> InputReport) list"
  written :: "(InputReport \<times> bool) list"

text \<open>
  \<open>Setup\<close> on the value \<open>p\<close> at time \<open>t0\<close>. When \<open>unix.SetNonblock\<close> fails the
  error is logged and no goroutine is started.
\<close>

definition Setup :: "Protocol \<Rightarrow> bool \<Rightarrow> time \<Rightarrow> byte list \<Rightarrow> System option" where
  "Setup p nonblock_failed t0 mac =
     (let p = p\<lparr>macAddr := mac\<rparr>
      in if nonblock_failed then None
         else Some \<lparr>proto = p, wall = t0, boot = BStart, reader = RLoad, loads = 0,
                    dispatched = [], sent = [], written = []\<rparr>)"

definition send_queue :: "task \<Rightarrow> System \<Rightarrow> InputReport \<Rightarrow> System option" where
  "send_queue t s r =
     (case chan_send (queue (proto s)) r of
        None \<Rightarrow> None
      | Some c \<Rightarrow> Some (s\<lparr>proto := (proto s)\<lparr>queue := c\<rparr>, sent := sent s @ [(t, r)]\<rparr>))"

definition boot_after :: "InputReport list \<Rightarrow> boot_pc" where
  "boot_after rs = (if rs = [] then BReturned else BSending rs)"

definition reader_after :: "InputReport list \<Rightarrow> loop_ctl \<Rightarrow> reader_pc" where
  "reader_after rs ctl =
     (if rs = [] then (case ctl of Continue \<Rightarrow> RLoad | Return \<Rightarrow> RReturned)
      else RSending rs ctl)"

text \<open>
  \<open>sendEmptyReport\<close>: make a ticker of one second, wait for its first tick, call
  \<open>processStandardFullReport\<close>, stop the ticker and return.
\<close>

definition sendEmptyReport_step :: "System \<Rightarrow> System option" where
  "sendEmptyReport_step s =
     (case boot s of
        BStart \<Rightarrow> Some (s\<lparr>boot := BWait (wall s + time_Second)\<rparr>)
      | BWait deadline \<Rightarrow>
          if deadline \<le> wall s
          then Some (s\<lparr>boot := boot_after (processStandardFullReport (proto s))\<rparr>)
          else None
      | BSending rs \<Rightarrow>
          (case rs of
             [] \<Rightarrow> Some (s\<lparr>boot := BReturned\<rparr>)
           | r # rs' \<Rightarrow>
               (case send_queue Bootstrap s r of
                  None \<Rightarrow> None
                | Some s' \<Rightarrow> Some (s'\<lparr>boot := boot_after rs'\<rparr>)))
      | BReturned \<Rightarrow> None)"

definition readOutputReport_step :: "Env \<Rightarrow> System \<Rightarrow> System option" where
  "readOutputReport_step env s =
     (case reader s of
        RLoad \<Rightarrow>
          (case readOutputReport_body (proto s) (wall s) (loadResult env (loads s)) of
             Inl e \<Rightarrow> Some (s\<lparr>reader := RPanicked, loads := Suc (loads s)\<rparr>)
           | Inr (p, rs, calls, ctl) \<Rightarrow>
               Some (s\<lparr>proto := p, reader := reader_after rs ctl, loads := Suc (loads s),
                       dispatched := dispatched s @ calls\<rparr>))
      | RSending rs ctl \<Rightarrow>
          (case rs of
             [] \<Rightarrow> Some (s\<lparr>reader := reader_after [] ctl\<rparr>)
           | r # rs' \<Rightarrow>
               (case send_queue Reader s r of
                  None \<Rightarrow> None
                | Some s' \<Rightarrow> Some (s'\<lparr>reader := reader_after rs' ctl\<rparr>)))
      | RReturned \<Rightarrow> None
      | RPanicked \<Rightarrow> None)"

text \<open>
  \<open>processInputQueue\<close>: receive a report, write it, log the outcome, again. A failed
  write drops the report.
\<close>

definition processInputQueue_step :: "Env \<Rightarrow> System \<Rightarrow> System option" where
  "processInputQueue_step env s =
     (case chan_recv (queue (proto s)) of
        None \<Rightarrow> None
      | Some (report, c) \<Rightarrow>
          Some (s\<lparr>proto := (proto s)\<lparr>queue := c\<rparr>,
                  written := written s @ [(report, writeOk env (length (written s)))]\<rparr>))"

subsection \<open>Interleaving\<close>

text \<open>
  An event lets one goroutine take its next step or lets the clock advance. A panic in
  one goroutine ends the process: nothing is enabled afterwards. \<open>exec\<close> runs a
  schedule; an event that is not enabled leaves the state as it is.
\<close>

datatype event = Run task | Advance nat

definition step :: "Env \<Rightarrow> event \<Rightarrow> System \<Rightarrow> System option" where
  "step env e s =
     (if reader s = RPanicked then None
      else case e of
             Advance d \<Rightarrow> Some (s\<lparr>wall := wall s + int d\<rparr>)
           | Run Bootstrap \<Rightarrow> sendEmptyReport_step s
           | Run Reader \<Rightarrow> readOutputReport_step env s
           | Run Writer \<Rightarrow> processInputQueue_step env s)"

definition step_or_stay :: "Env \<Rightarrow> event \<Rightarrow> System \<Rightarrow> System" where
  "step_or_stay env e s = (case step env e s of None \<Rightarrow> s | Some s' \<Rightarrow> s')"

fun exec :: "Env \<Rightarrow> event list \<Rightarrow> System \<Rightarrow> System" where
  "exec env [] s = s"
| "exec env (e # es) s = exec env es (step_or_stay env e s)"

definition sent_by :: "task \<Rightarrow> System \<Rightarrow> InputReport list" where
  "sent_by t s = map snd (filter (\<lambda>x. fst x = t) (sent s))"

subsection \<open>Closed forms and invariants used in the proofs\<close>

text \<open>The acknowledgment that the handler of each recognized subcommand appends.\<close>

definition ackOf :: "Protocol \<Rightarrow> OutputReport \<Rightarrow> Ack option" where
  "ackOf p report =
     (case getSubcommand report of
        RequestDeviceInfo \<Rightarrow> Some (AckDeviceInfo (macAddr p))
      | SetInputReportMode \<Rightarrow> Some AckSetInputReportMode
      | TriggerButtonsElapsedTime \<Rightarrow> Some AckTriggerButtonsElapsedTime
      | SetShipmentLowPowerState \<Rightarrow> Some AckSetShipmentLowPowerState
      | SpiFlashRead \<Rightarrow> Some (AckSpiFlashRead (getSubcommandData report))
      | SetNfcMcuConfig \<Rightarrow> Some AckSetNfcMcuConfig
      | SetNfcMcuState \<Rightarrow> Some AckSetNfcMcuState
      | SetPlayerLights \<Rightarrow> Some AckSetPlayerLights
      | EnableImu \<Rightarrow> Some AckEnableImu
      | EnableVibration \<Rightarrow> Some AckEnableVibration
      | OtherSubcommand b \<Rightarrow> None)"

text \<open>The state a dispatch that completes leaves behind, field by field.\<close>

definition stateAfter :: "Protocol \<Rightarrow> time \<Rightarrow> OutputReport \<Rightarrow> Protocol" where
  "stateAfter p now report =
     p\<lparr>elapsed := 0xFF, lastTime := now,
       deviceInfoRequired :=
         deviceInfoRequired p \<or> getSubcommand report = RequestDeviceInfo,
       imuEnabled := imuEnabled p \<or>
         (getSubcommand report = EnableImu \<and> hd (getSubcommandData report) = 0x01)\<rparr>"

definition framing_error :: "read_result \<Rightarrow> bool" where
  "framing_error res =
     (res = errEmptyData \<or> res = errBadLengthData \<or> res = errMalformedData)"

definition unsolicited :: "InputReport \<Rightarrow> bool" where
  "unsolicited r = (r = standardReport True \<or> r = standardReport False)"

text \<open>The queue: its capacity, its bound, and its order against the history.\<close>

definition inv_queue :: "System \<Rightarrow> bool" where
  "inv_queue s =
     (cap (queue (proto s)) = 5 \<and> length (buf (queue (proto s))) \<le> 5 \<and>
      map fst (written s) @ buf (queue (proto s)) = map snd (sent s))"

text \<open>A goroutine suspended at a send has a report to send.\<close>

definition inv_pending :: "System \<Rightarrow> bool" where
  "inv_pending s =
     ((case reader s of RSending rs ctl \<Rightarrow> rs \<noteq> [] | _ \<Rightarrow> True) \<and>
      (case boot s of BSending rs \<Rightarrow> rs \<noteq> [] | _ \<Rightarrow> True))"

text \<open>The bootstrap task, for a setup at time \<open>t0\<close>.\<close>

definition inv_boot :: "time \<Rightarrow> System \<Rightarrow> bool" where
  "inv_boot t0 s =
     (t0 \<le> wall s \<and>
      (case boot s of
         BStart \<Rightarrow> sent_by Bootstrap s = []
       | BWait deadline \<Rightarrow> sent_by Bootstrap s = [] \<and> t0 + time_Second \<le> deadline
       | BSending rs \<Rightarrow>
           sent_by Bootstrap s = [] \<and> length rs = 1 \<and> list_all unsolicited rs \<and>
           t0 + time_Second \<le> wall s
       | BReturned \<Rightarrow>
           length (sent_by Bootstrap s) = 1 \<and> list_all unsolicited (sent_by Bootstrap s) \<and>
           t0 + time_Second \<le> wall s))"

text \<open>The read loop while it only polls.\<close>

definition inv_poll :: "System \<Rightarrow> bool" where
  "inv_poll s =
     (reader s = RLoad \<and> dispatched s = [] \<and> sent_by Reader s = [] \<and>
      \<not> reportReceived (proto s))"

text \<open>
  The read loop after a framing error: \<open>n\<close> calls of \<open>load\<close> made, \<open>d\<close> dispatched,
  \<open>rs\<close> sent before, and the report \<open>r\<close> either still to send or sent last.
\<close>

definition inv_reset ::
  "nat \<Rightarrow> Subcommand list \<Rightarrow> InputReport list \<Rightarrow> InputReport \<Rightarrow> System \<Rightarrow> bool" where
  "inv_reset n d rs r s =
     (loads s = n \<and> dispatched s = d \<and>
      (reader s = RSending [r] Return \<and> sent_by Reader s = rs \<or>
       reader s = RReturned \<and> sent_by Reader s = rs @ [r]))"

definition inv_deviceInfo :: "System \<Rightarrow> bool" where
  "inv_deviceInfo s =
     (deviceInfoRequired (proto s) = (RequestDeviceInfo \<in> set (dispatched s)))"

section \<open>The dispatcher, one call at a time\<close>

subsection \<open>Closed forms of the handlers\<close>

lemmas builder_defs = AllocStandardReport_def setReportId_def setImuData_def
  fillStandardData_def setAck_def ackDeviceInfo_def ackSetInputReportMode_def
  ackTriggerButtonsElapsedTime_def ackSetShipmentLowPowerState_def ackSpiFlashRead_def
  ackSetNfcMcuConfig_def ackSetNfcMcuState_def ackSetPlayerLights_def ackEnableImu_def
  ackEnableVibration_def

lemmas handler_defs = answerSetMode_def anwserTriggerButtonsElapsedTime_def
  answerDeviceInfo_def answerSetShipmentState_def answerSpiRead_def
  answerSetNfcMcuConfig_def answerSetNfcMcuState_def answerSetPlayerLights_def
  answerEnableVibration_def

lemma updateTimer_eq: "updateTimer p now = p\<lparr>elapsed := 0xFF, lastTime := now\<rparr>"
  by (simp add: updateTimer_def Let_def)

lemma processStandardFullReport_eq:
  "processStandardFullReport p = [standardReport (imuEnabled p)]"
  by (simp add: processStandardFullReport_def standardReport_def builder_defs)

lemma answerEnableImu_Cons:
  "answerEnableImu p (d # ds) =
     Inr (p\<lparr>imuEnabled := imuEnabled p \<or> d = 0x01\<rparr>,
          [subcommandReply p AckEnableImu])"
  by (simp add: answerEnableImu_def subcommandReply_def builder_defs)

lemma psr_recognized:
  assumes "recognized (getSubcommand report)"
    and "getSubcommand report = EnableImu \<longrightarrow> getSubcommandData report \<noteq> []"
  shows "processSubcommandReport p now report =
     Inr (stateAfter p now report,
          [subcommandReply (stateAfter p now report) (the (ackOf p report))])"
  using assms
  apply (cases "getSubcommand report")
  apply (simp_all add: processSubcommandReport_def updateTimer_eq handler_defs builder_defs
      stateAfter_def subcommandReply_def ackOf_def recognized_def Let_def)
  apply (cases "getSubcommandData report")
   apply (simp_all add: answerEnableImu_Cons subcommandReply_def)
  done

lemma stateAfter_unknown:
  assumes "\<not> recognized (getSubcommand report)"
  shows "stateAfter p now report = p\<lparr>elapsed := 0xFF, lastTime := now\<rparr>"
  using assms
  by (cases "getSubcommand report") (simp_all add: recognized_def stateAfter_def)

lemma psr_unknown:
  assumes "\<not> recognized (getSubcommand report)"
  shows "processSubcommandReport p now report =
     Inr (p\<lparr>elapsed := 0xFF, lastTime := now\<rparr>, [standardReport (imuEnabled p)])"
  using assms
  by (cases "getSubcommand report")
     (simp_all add: processSubcommandReport_def updateTimer_eq recognized_def
        processStandardFullReport_eq Let_def)

lemma psr_panic:
  assumes "getSubcommand report = EnableImu" "getSubcommandData report = []"
  shows "processSubcommandReport p now report = Inl IndexOutOfRange"
  using assms by (simp add: processSubcommandReport_def answerEnableImu_def Let_def)

lemma psr_cases:
  "processSubcommandReport p now report = Inl IndexOutOfRange \<or>
   (\<exists>r. processSubcommandReport p now report = Inr (stateAfter p now report, [r]))"
proof (cases "getSubcommand report = EnableImu \<and> getSubcommandData report = []")
  case True
  then show ?thesis by (simp add: psr_panic)
next
  case False
  show ?thesis
  proof (cases "recognized (getSubcommand report)")
    case True
    with False show ?thesis using psr_recognized [of report p now] by auto
  next
    case False
    then show ?thesis by (simp add: psr_unknown stateAfter_unknown)
  qed
qed

lemma psr_Inr:
  assumes "processSubcommandReport p now report = Inr (p', rs)"
  shows "p' = stateAfter p now report \<and> length rs = 1"
  using assms psr_cases [of p now report] by auto

lemma body_Inr:
  assumes "readOutputReport_body p now res = Inr (p', rs, calls, ctl)"
  shows "queue p' = queue p"
    and "deviceInfoRequired p' = (deviceInfoRequired p \<or> RequestDeviceInfo \<in> set calls)"
    and "length rs \<le> 1"
proof -
  have "queue p' = queue p \<and>
    deviceInfoRequired p' = (deviceInfoRequired p \<or> RequestDeviceInfo \<in> set calls) \<and>
    length rs \<le> 1"
  proof (cases res)
    case (Loaded outp)
    show ?thesis
    proof (cases "id_out outp")
      case RumbleAndSubcommand
      with Loaded assms have
        q: "processSubcommandReport (p\<lparr>reportReceived := True\<rparr>) now outp = Inr (p', rs)"
        and c: "calls = [getSubcommand outp]"
        by (auto simp: readOutputReport_body_def Let_def split: sum.splits)
      from psr_Inr [OF q] c show ?thesis
        by (auto simp: stateAfter_def)
    qed (use Loaded assms in \<open>auto simp: readOutputReport_body_def Let_def\<close>)
  qed (use assms in \<open>auto simp: readOutputReport_body_def processStandardFullReport_eq\<close>)
  then show "queue p' = queue p"
    and "deviceInfoRequired p' = (deviceInfoRequired p \<or> RequestDeviceInfo \<in> set calls)"
    and "length rs \<le> 1"
    by simp_all
qed

lemma body_EAGAIN: "readOutputReport_body p now EAGAIN = Inr (p, [], [], Continue)"
  by (simp add: readOutputReport_body_def)

lemma body_framing:
  "framing_error res \<Longrightarrow>
   readOutputReport_body p now res = Inr (p, [standardReport (imuEnabled p)], [], Return)"
  by (auto simp: framing_error_def readOutputReport_body_def processStandardFullReport_eq)

subsection \<open>The timer\<close>

text \<open>
  C1. The claim: every dispatch sets the elapsed-ticks counter to
  \<open>(now - lastTime) / 4\<close> truncated to 8 bits, sets \<open>lastTime\<close> to \<open>now\<close>, and
  puts the computed value into the header of the reply. \<open>updateTimer\<close> computes that
  value and overwrites it with \<open>0xFF\<close> in the next statement. For a fresh state and
  \<open>now = 8\<close> the computed value is 2; the counter and the header of the reply to
  \<open>SetPlayerLights\<close> hold 255. \<open>lastTime\<close> is set to \<open>now\<close>.
\<close>

theorem updateTimer_discards_computed_ticks:
  "go_quot (time_Sub 8 (lastTime NewProtocol)) 4 AND 0xFF = 2 \<and>
   elapsed (updateTimer NewProtocol 8) = 255 \<and>
   lastTime (updateTimer NewProtocol 8) = 8 \<and>
   processSubcommandReport NewProtocol 8
     \<lparr>id_out = RumbleAndSubcommand, getSubcommand = SetPlayerLights,
      getSubcommandData = []\<rparr> =
   Inr (NewProtocol\<lparr>elapsed := 255, lastTime := 8\<rparr>,
        [\<lparr>reportId = Some SubcommandReplies, imuData = None,
          standardData = Some (255, False), ack = Some AckSetPlayerLights\<rparr>])"
  by (simp add: go_quot_def time_Sub_def maxDuration_def minDuration_def NewProtocol_def
      updateTimer_eq processSubcommandReport_def answerSetPlayerLights_def builder_defs)

subsection \<open>The motion-sensor flag\<close>

text \<open>
  C2, as amended. A dispatch that does not read past an empty payload completes, and
  after it the motion-sensor flag is true exactly when it was true before or the
  subcommand is \<open>EnableImu\<close> with payload byte 0 equal to 1. So \<open>EnableImu\<close> sets the
  flag on byte 1 and leaves it as it is on any other byte, and no other subcommand
  changes it.
\<close>

theorem enableImu_latches_flag:
  assumes "getSubcommand report = EnableImu \<longrightarrow> getSubcommandData report \<noteq> []"
  shows "\<exists>p' rs. processSubcommandReport p now report = Inr (p', rs) \<and>
     imuEnabled p' =
       (imuEnabled p \<or>
        getSubcommand report = EnableImu \<and> hd (getSubcommandData report) = 0x01)"
proof (cases "recognized (getSubcommand report)")
  case True
  then show ?thesis
    using assms psr_recognized [of report p now] by (simp add: stateAfter_def)
next
  case False
  then have "getSubcommand report \<noteq> EnableImu"
    by (auto simp: recognized_def)
  with False show ?thesis
    using psr_unknown [of report p now] by simp
qed

theorem enableImu_latches_flag_witness:
  "(\<exists>p' rs. processSubcommandReport NewProtocol 8
       \<lparr>id_out = RumbleAndSubcommand, getSubcommand = EnableImu,
        getSubcommandData = [0x01]\<rparr> = Inr (p', rs) \<and> imuEnabled p') \<and>
   (\<exists>p' rs. processSubcommandReport (NewProtocol\<lparr>imuEnabled := True\<rparr>) 8
       \<lparr>id_out = RumbleAndSubcommand, getSubcommand = EnableImu,
        getSubcommandData = [0x00]\<rparr> = Inr (p', rs) \<and> imuEnabled p') \<and>
   (\<exists>p' rs. processSubcommandReport NewProtocol 8
       \<lparr>id_out = RumbleAndSubcommand, getSubcommand = EnableVibration,
        getSubcommandData = [0x01]\<rparr> = Inr (p', rs) \<and> \<not> imuEnabled p')"
  using
    enableImu_latches_flag [of "\<lparr>id_out = RumbleAndSubcommand, getSubcommand = EnableImu,
        getSubcommandData = [0x01]\<rparr>" NewProtocol 8]
    enableImu_latches_flag [of "\<lparr>id_out = RumbleAndSubcommand, getSubcommand = EnableImu,
        getSubcommandData = [0x00]\<rparr>" "NewProtocol\<lparr>imuEnabled := True\<rparr>" 8]
    enableImu_latches_flag [of "\<lparr>id_out = RumbleAndSubcommand, getSubcommand = EnableVibration,
        getSubcommandData = [0x01]\<rparr>" NewProtocol 8]
  by (simp add: NewProtocol_def)

text \<open>
  The claim as written assigns the flag the value of \<open>payload byte 0 = 1\<close>. With the
  flag set and payload byte 0 equal to 0 the flag stays set.
\<close>

theorem enableImu_keeps_flag_counterexample:
  "processSubcommandReport (NewProtocol\<lparr>imuEnabled := True\<rparr>) 8
     \<lparr>id_out = RumbleAndSubcommand, getSubcommand = EnableImu,
      getSubcommandData = [0x00]\<rparr> =
   Inr (NewProtocol\<lparr>imuEnabled := True, elapsed := 255, lastTime := 8\<rparr>,
        [\<lparr>reportId = Some SubcommandReplies, imuData = None,
          standardData = Some (255, False), ack = Some AckEnableImu\<rparr>]) \<and>
   imuEnabled (NewProtocol\<lparr>imuEnabled := True, elapsed := 255, lastTime := 8\<rparr>) \<noteq>
     ((0x00 :: byte) = 0x01)"
  by (simp add: NewProtocol_def updateTimer_eq processSubcommandReport_def
      answerEnableImu_def builder_defs)

subsection \<open>Replies to recognized subcommands\<close>

text \<open>
  C4. A dispatch of one of the ten recognized subcommands (for \<open>EnableImu\<close>, with the
  payload byte that its handler reads) completes and sends exactly one report on the
  queue. The report is tagged \<open>SubcommandReplies\<close> and its header holds the timer and
  the device-info flag of the state after the dispatch; that flag is the one from before,
  or true when the subcommand is \<open>RequestDeviceInfo\<close>.
\<close>

theorem recognized_subcommand_one_reply:
  assumes "recognized (getSubcommand report)"
    and "getSubcommand report = EnableImu \<longrightarrow> getSubcommandData report \<noteq> []"
  shows "\<exists>p' r. processSubcommandReport p now report = Inr (p', [r]) \<and>
     reportId r = Some SubcommandReplies \<and>
     standardData r = Some (elapsed p', deviceInfoRequired p') \<and>
     deviceInfoRequired p' =
       (deviceInfoRequired p \<or> getSubcommand report = RequestDeviceInfo)"
  using psr_recognized [OF assms, of p now]
  by (simp add: subcommandReply_def stateAfter_def)

theorem recognized_subcommand_one_reply_witness:
  "recognized RequestDeviceInfo \<and>
   (\<exists>p' r. processSubcommandReport NewProtocol 8
       \<lparr>id_out = RumbleAndSubcommand, getSubcommand = RequestDeviceInfo,
        getSubcommandData = []\<rparr> = Inr (p', [r]) \<and>
     reportId r = Some SubcommandReplies \<and>
     standardData r = Some (elapsed p', deviceInfoRequired p') \<and>
     deviceInfoRequired p')"
  using recognized_subcommand_one_reply
    [of "\<lparr>id_out = RumbleAndSubcommand, getSubcommand = RequestDeviceInfo,
        getSubcommandData = []\<rparr>" NewProtocol 8]
  by (simp add: recognized_def)

subsection \<open>Unknown subcommands\<close>

text \<open>
  C5, as amended. A dispatch of a subcommand that is not one of the ten recognized ones
  completes and sends exactly one report: the unsolicited standard report with the
  current motion-sensor flag, tagged \<open>StandardFullMode\<close>, with no header filled and no
  acknowledgment. Apart from the timer refresh that every dispatch starts with (the
  fields \<open>elapsed\<close> and \<open>lastTime\<close>), the state is unchanged.
\<close>

theorem unknown_subcommand_standard_report:
  assumes "\<not> recognized (getSubcommand report)"
  shows "\<exists>p' r. processSubcommandReport p now report = Inr (p', [r]) \<and>
     r = standardReport (imuEnabled p) \<and>
     reportId r = Some StandardFullMode \<and> reportId r \<noteq> Some SubcommandReplies \<and>
     ack r = None \<and> standardData r = None \<and>
     p'\<lparr>elapsed := elapsed p, lastTime := lastTime p\<rparr> = p \<and>
     lastTime p' = now"
  using psr_unknown [OF assms, of p now]
  by (simp add: standardReport_def)

theorem unknown_subcommand_standard_report_witness:
  "\<not> recognized (OtherSubcommand 0x99) \<and>
   (\<exists>p' r. processSubcommandReport NewProtocol 8
       \<lparr>id_out = RumbleAndSubcommand, getSubcommand = OtherSubcommand 0x99,
        getSubcommandData = []\<rparr> = Inr (p', [r]) \<and>
     r = standardReport False \<and> ack r = None \<and>
     p'\<lparr>elapsed := 0, lastTime := 0\<rparr> = NewProtocol)"
  using unknown_subcommand_standard_report
    [of "\<lparr>id_out = RumbleAndSubcommand, getSubcommand = OtherSubcommand 0x99,
        getSubcommandData = []\<rparr>" NewProtocol 8]
  by (auto simp: recognized_def NewProtocol_def)

text \<open>
  The claim as written allows no change of the protocol state. The dispatch of the
  unknown subcommand \<open>0x99\<close> on a fresh state at \<open>now = 8\<close> changes \<open>elapsed\<close> and
  \<open>lastTime\<close>.
\<close>

theorem unknown_subcommand_refreshes_timer_counterexample:
  "processSubcommandReport NewProtocol 8
     \<lparr>id_out = RumbleAndSubcommand, getSubcommand = OtherSubcommand 0x99,
      getSubcommandData = []\<rparr> =
   Inr (NewProtocol\<lparr>elapsed := 255, lastTime := 8\<rparr>, [standardReport False]) \<and>
   NewProtocol\<lparr>elapsed := 255, lastTime := 8\<rparr> \<noteq> NewProtocol"
  by (simp add: NewProtocol_def updateTimer_eq processSubcommandReport_def
      processStandardFullReport_eq)

subsection \<open>The payload read of \<open>answerEnableImu\<close>\<close>

text \<open>
  C10. \<open>answerEnableImu\<close> reads \<open>data[0]\<close> with no check of the length. On a
  non-empty payload the read is in bounds and the handler completes with one reply; on
  the empty payload it panics with an index out of range. The same holds for a dispatch
  of \<open>EnableImu\<close>, so the non-empty payload is needed for the panic to be unreachable.
\<close>

theorem answerEnableImu_needs_payload:
  "(data \<noteq> [] \<longrightarrow> (\<exists>p' r. answerEnableImu p data = Inr (p', [r]))) \<and>
   (data = [] \<longrightarrow> answerEnableImu p data = Inl IndexOutOfRange) \<and>
   (getSubcommand report = EnableImu \<longrightarrow>
      (getSubcommandData report \<noteq> [] \<longrightarrow>
         (\<exists>p' r. processSubcommandReport p now report = Inr (p', [r]))) \<and>
      (getSubcommandData report = [] \<longrightarrow>
         processSubcommandReport p now report = Inl IndexOutOfRange))"
proof (intro conjI impI)
  assume "data \<noteq> []"
  then obtain d ds where "data = d # ds" by (cases data) auto
  then show "\<exists>p' r. answerEnableImu p data = Inr (p', [r])"
    by (simp add: answerEnableImu_Cons)
next
  assume "data = []"
  then show "answerEnableImu p data = Inl IndexOutOfRange"
    by (simp add: answerEnableImu_def)
next
  assume "getSubcommand report = EnableImu" "getSubcommandData report \<noteq> []"
  then show "\<exists>p' r. processSubcommandReport p now report = Inr (p', [r])"
    using psr_recognized [of report p now] by (simp add: recognized_def)
next
  assume "getSubcommand report = EnableImu" "getSubcommandData report = []"
  then show "processSubcommandReport p now report = Inl IndexOutOfRange"
    by (rule psr_panic)
qed

theorem answerEnableImu_needs_payload_witness:
  "(\<exists>p' r. answerEnableImu NewProtocol [0x01] = Inr (p', [r])) \<and>
   answerEnableImu NewProtocol [] = Inl IndexOutOfRange \<and>
   (\<exists>p' r. processSubcommandReport NewProtocol 8
      \<lparr>id_out = RumbleAndSubcommand, getSubcommand = EnableImu,
       getSubcommandData = [0x01]\<rparr> = Inr (p', [r])) \<and>
   processSubcommandReport NewProtocol 8
      \<lparr>id_out = RumbleAndSubcommand, getSubcommand = EnableImu,
       getSubcommandData = []\<rparr> = Inl IndexOutOfRange"
  using
    answerEnableImu_needs_payload [of "[0x01]" NewProtocol
      "\<lparr>id_out = RumbleAndSubcommand, getSubcommand = EnableImu,
        getSubcommandData = [0x01]\<rparr>" 8]
    answerEnableImu_needs_payload [of "[]" NewProtocol
      "\<lparr>id_out = RumbleAndSubcommand, getSubcommand = EnableImu,
        getSubcommandData = []\<rparr>" 8]
  by simp

section \<open>The goroutines together\<close>

subsection \<open>Steps and schedules\<close>

lemma send_queue_Some:
  assumes "send_queue t s r = Some s'"
  shows "length (buf (queue (proto s))) < cap (queue (proto s))"
    and "s' = s\<lparr>proto := (proto s)\<lparr>queue := (queue (proto s))\<lparr>buf := buf (queue (proto s)) @ [r]\<rparr>\<rparr>,
                 sent := sent s @ [(t, r)]\<rparr>"
  using assms by (auto simp: send_queue_def chan_send_def split: if_splits)

lemma send_queue_None:
  "send_queue t s r = None \<longleftrightarrow> \<not> length (buf (queue (proto s))) < cap (queue (proto s))"
  by (simp add: send_queue_def chan_send_def)
lemma sendEmptyReport_step_cases:
  assumes "sendEmptyReport_step s = Some s'"
  obtains
    (start) "boot s = BStart" "s' = s\<lparr>boot := BWait (wall s + time_Second)\<rparr>"
  | (tick) deadline where "boot s = BWait deadline" "deadline \<le> wall s"
      "s' = s\<lparr>boot := BSending [standardReport (imuEnabled (proto s))]\<rparr>"
  | (send) r rs where "boot s = BSending (r # rs)"
      "length (buf (queue (proto s))) < cap (queue (proto s))"
      "s' = s\<lparr>proto := (proto s)\<lparr>queue := (queue (proto s))\<lparr>buf := buf (queue (proto s)) @ [r]\<rparr>\<rparr>,
              sent := sent s @ [(Bootstrap, r)], boot := boot_after rs\<rparr>"
  | (nil) "boot s = BSending []" "s' = s\<lparr>boot := BReturned\<rparr>"
proof (cases "boot s")
  case BStart
  with assms start show ?thesis by (simp add: sendEmptyReport_step_def)
next
  case (BWait deadline)
  with assms tick show ?thesis
    by (simp add: sendEmptyReport_step_def processStandardFullReport_eq boot_after_def
        split: if_splits)
next
  case (BSending rs)
  show ?thesis
  proof (cases rs)
    case Nil
    with BSending assms nil show ?thesis by (simp add: sendEmptyReport_step_def)
  next
    case (Cons r rs')
    with BSending assms obtain s1 where s1: "send_queue Bootstrap s r = Some s1"
      and s': "s' = s1\<lparr>boot := boot_after rs'\<rparr>"
      by (auto simp: sendEmptyReport_step_def split: option.splits)
    from send_queue_Some [OF s1] s' Cons BSending send show ?thesis by simp
  qed
next
  case BReturned
  with assms show ?thesis by (simp add: sendEmptyReport_step_def)
qed

lemma readOutputReport_step_cases:
  assumes "readOutputReport_step env s = Some s'"
  obtains
    (panic) e where "reader s = RLoad"
      "readOutputReport_body (proto s) (wall s) (loadResult env (loads s)) = Inl e"
      "s' = s\<lparr>reader := RPanicked, loads := Suc (loads s)\<rparr>"
  | (load) p rs calls ctl where "reader s = RLoad"
      "readOutputReport_body (proto s) (wall s) (loadResult env (loads s)) =
         Inr (p, rs, calls, ctl)"
      "s' = s\<lparr>proto := p, reader := reader_after rs ctl, loads := Suc (loads s),
              dispatched := dispatched s @ calls\<rparr>"
  | (send) r rs ctl where "reader s = RSending (r # rs) ctl"
      "length (buf (queue (proto s))) < cap (queue (proto s))"
      "s' = s\<lparr>proto := (proto s)\<lparr>queue := (queue (proto s))\<lparr>buf := buf (queue (proto s)) @ [r]\<rparr>\<rparr>,
              sent := sent s @ [(Reader, r)], reader := reader_after rs ctl\<rparr>"
  | (nil) ctl where "reader s = RSending [] ctl" "s' = s\<lparr>reader := reader_after [] ctl\<rparr>"
proof (cases "reader s")
  case RLoad
  show ?thesis
  proof (cases "readOutputReport_body (proto s) (wall s) (loadResult env (loads s))")
    case (Inl e)
    with RLoad assms panic show ?thesis by (simp add: readOutputReport_step_def)
  next
    case (Inr x)
    obtain p rs calls ctl where "x = (p, rs, calls, ctl)" by (cases x) auto
    with Inr RLoad assms load show ?thesis by (simp add: readOutputReport_step_def)
  qed
next
  case (RSending rs ctl)
  show ?thesis
  proof (cases rs)
    case Nil
    with RSending assms nil show ?thesis by (simp add: readOutputReport_step_def)
  next
    case (Cons r rs')
    with RSending assms obtain s1 where s1: "send_queue Reader s r = Some s1"
      and s': "s' = s1\<lparr>reader := reader_after rs' ctl\<rparr>"
      by (auto simp: readOutputReport_step_def split: option.splits)
    from send_queue_Some [OF s1] s' Cons RSending send show ?thesis by simp
  qed
next
  case RReturned
  with assms show ?thesis by (simp add: readOutputReport_step_def)
next
  case RPanicked
  with assms show ?thesis by (simp add: readOutputReport_step_def)
qed

lemma processInputQueue_step_cases:
  assumes "processInputQueue_step env s = Some s'"
  obtains r rs where "buf (queue (proto s)) = r # rs"
    "s' = s\<lparr>proto := (proto s)\<lparr>queue := (queue (proto s))\<lparr>buf := rs\<rparr>\<rparr>,
            written := written s @ [(r, writeOk env (length (written s)))]\<rparr>"
  using assms
  by (auto simp: processInputQueue_step_def chan_recv_def split: list.splits)

lemma step_cases:
  assumes "step env e s = Some s'"
  obtains
    (advance) d where "e = Advance d" "s' = s\<lparr>wall := wall s + int d\<rparr>"
  | (bootstrap) "e = Run Bootstrap" "sendEmptyReport_step s = Some s'"
  | (reader) "e = Run Reader" "reader s \<noteq> RPanicked" "readOutputReport_step env s = Some s'"
  | (writer) "e = Run Writer" "processInputQueue_step env s = Some s'"
  using assms
  by (auto simp: step_def split: if_splits event.splits task.splits)

lemma inv_queue_step:
  assumes "step env e s = Some s'" and "inv_queue s"
  shows "inv_queue s'"
  using assms(1)
proof (cases rule: step_cases)
  case (advance d)
  with assms(2) show ?thesis by (simp add: inv_queue_def)
next
  case bootstrap
  from bootstrap(2) assms(2) show ?thesis
    by (cases rule: sendEmptyReport_step_cases) (auto simp: inv_queue_def)
next
  case reader
  from reader(3) show ?thesis
  proof (cases rule: readOutputReport_step_cases)
    case (load p rs calls ctl)
    with body_Inr(1) [OF load(2)] assms(2) show ?thesis by (simp add: inv_queue_def)
  qed (use assms(2) in \<open>auto simp: inv_queue_def\<close>)
next
  case writer
  from writer(2) assms(2) show ?thesis
    by (cases rule: processInputQueue_step_cases) (auto simp: inv_queue_def)
qed

lemma inv_pending_step:
  assumes "step env e s = Some s'" and "inv_pending s"
  shows "inv_pending s'"
  using assms(1)
proof (cases rule: step_cases)
  case (advance d)
  with assms(2) show ?thesis by (simp add: inv_pending_def)
next
  case bootstrap
  from bootstrap(2) assms(2) show ?thesis
    by (cases rule: sendEmptyReport_step_cases)
       (auto simp: inv_pending_def boot_after_def split: reader_pc.splits)
next
  case reader
  from reader(3) assms(2) show ?thesis
    by (cases rule: readOutputReport_step_cases)
       (auto simp: inv_pending_def reader_after_def split: boot_pc.splits loop_ctl.splits)
next
  case writer
  from writer(2) assms(2) show ?thesis
    by (cases rule: processInputQueue_step_cases) (auto simp: inv_pending_def)
qed

lemma unsolicited_standardReport [simp]: "unsolicited (standardReport b)"
  by (cases b) (simp_all add: unsolicited_def)

lemma inv_boot_step:
  assumes "step env e s = Some s'" and "inv_boot t0 s"
  shows "inv_boot t0 s'"
  using assms(1)
proof (cases rule: step_cases)
  case (advance d)
  with assms(2) show ?thesis by (auto simp: inv_boot_def sent_by_def split: boot_pc.splits)
next
  case bootstrap
  from bootstrap(2) assms(2) show ?thesis
    by (cases rule: sendEmptyReport_step_cases)
       (auto simp: inv_boot_def boot_after_def sent_by_def)
next
  case reader
  from reader(3) assms(2) show ?thesis
    by (cases rule: readOutputReport_step_cases)
       (auto simp: inv_boot_def sent_by_def split: boot_pc.splits)
next
  case writer
  from writer(2) assms(2) show ?thesis
    by (cases rule: processInputQueue_step_cases)
       (auto simp: inv_boot_def sent_by_def split: boot_pc.splits)
qed

lemma inv_deviceInfo_step:
  assumes "step env e s = Some s'" and "inv_deviceInfo s"
  shows "inv_deviceInfo s'"
  using assms(1)
proof (cases rule: step_cases)
  case (advance d)
  with assms(2) show ?thesis by (simp add: inv_deviceInfo_def)
next
  case bootstrap
  from bootstrap(2) assms(2) show ?thesis
    by (cases rule: sendEmptyReport_step_cases) (auto simp: inv_deviceInfo_def)
next
  case reader
  from reader(3) show ?thesis
  proof (cases rule: readOutputReport_step_cases)
    case (load p rs calls ctl)
    with body_Inr(2) [OF load(2)] assms(2) show ?thesis by (simp add: inv_deviceInfo_def)
  qed (use assms(2) in \<open>auto simp: inv_deviceInfo_def\<close>)
next
  case writer
  from writer(2) assms(2) show ?thesis
    by (cases rule: processInputQueue_step_cases) (auto simp: inv_deviceInfo_def)
qed

lemma deviceInfoRequired_step:
  assumes "step env e s = Some s'" and "deviceInfoRequired (proto s)"
  shows "deviceInfoRequired (proto s')"
  using assms(1)
proof (cases rule: step_cases)
  case (advance d)
  with assms(2) show ?thesis by simp
next
  case bootstrap
  from bootstrap(2) assms(2) show ?thesis
    by (cases rule: sendEmptyReport_step_cases) auto
next
  case reader
  from reader(3) show ?thesis
  proof (cases rule: readOutputReport_step_cases)
    case (load p rs calls ctl)
    with body_Inr(2) [OF load(2)] assms(2) show ?thesis by simp
  qed (use assms(2) in auto)
next
  case writer
  from writer(2) assms(2) show ?thesis
    by (cases rule: processInputQueue_step_cases) auto
qed

lemma Setup_Some:
  assumes "Setup NewProtocol False t0 mac = Some s0"
  shows "s0 = \<lparr>proto = NewProtocol\<lparr>macAddr := mac\<rparr>, wall = t0, boot = BStart,
               reader = RLoad, loads = 0, dispatched = [], sent = [], written = []\<rparr>"
  using assms by (simp add: Setup_def)

lemma Setup_invariants:
  assumes "Setup NewProtocol False t0 mac = Some s0"
  shows "inv_queue s0" "inv_pending s0" "inv_boot t0 s0" "inv_deviceInfo s0" "inv_poll s0"
  unfolding Setup_Some [OF assms]
  by (simp_all add: inv_queue_def inv_pending_def inv_boot_def inv_deviceInfo_def
      inv_poll_def NewProtocol_def make_chan_def sent_by_def)

lemma exec_step_invariant:
  assumes step: "\<And>e s s'. P s \<Longrightarrow> step env e s = Some s' \<Longrightarrow> P s'" and init: "P s"
  shows "P (exec env es s)"
  using init
proof (induction es arbitrary: s)
  case Nil
  then show ?case by simp
next
  case (Cons e es)
  have "P (step_or_stay env e s)"
  proof (cases "step env e s")
    case None
    with Cons.prems show ?thesis by (simp add: step_or_stay_def)
  next
    case (Some s')
    with step [OF Cons.prems Some] show ?thesis by (simp add: step_or_stay_def)
  qed
  then show ?case by (simp add: Cons.IH)
qed

lemma inv_queue_exec: "inv_queue s \<Longrightarrow> inv_queue (exec env es s)"
  using inv_queue_step by (rule exec_step_invariant [where P = inv_queue, rotated 2])

lemma inv_pending_exec: "inv_pending s \<Longrightarrow> inv_pending (exec env es s)"
  using inv_pending_step by (rule exec_step_invariant [where P = inv_pending, rotated 2])

lemma inv_boot_exec: "inv_boot t0 s \<Longrightarrow> inv_boot t0 (exec env es s)"
  using inv_boot_step by (rule exec_step_invariant [where P = "inv_boot t0", rotated 2])

lemma inv_deviceInfo_exec: "inv_deviceInfo s \<Longrightarrow> inv_deviceInfo (exec env es s)"
  using inv_deviceInfo_step
  by (rule exec_step_invariant [where P = inv_deviceInfo, rotated 2])

lemma deviceInfoRequired_exec:
  "deviceInfoRequired (proto s) \<Longrightarrow> deviceInfoRequired (proto (exec env es s))"
  using deviceInfoRequired_step
  by (rule exec_step_invariant [where P = "\<lambda>s. deviceInfoRequired (proto s)", rotated 2])

subsection \<open>The read loop on a channel that would block\<close>

lemma poll_step:
  assumes "\<forall>n. loadResult env n = EAGAIN" and "inv_poll s"
  shows "step env (Run Reader) s = Some (s\<lparr>loads := Suc (loads s)\<rparr>)"
  using assms
  by (simp add: inv_poll_def step_def readOutputReport_step_def body_EAGAIN
      reader_after_def)

lemma inv_poll_step:
  assumes "\<forall>n. loadResult env n = EAGAIN" and "step env e s = Some s'" and "inv_poll s"
  shows "inv_poll s'"
  using assms(2)
proof (cases rule: step_cases)
  case (advance d)
  with assms(3) show ?thesis by (simp add: inv_poll_def sent_by_def)
next
  case bootstrap
  from bootstrap(2) assms(3) show ?thesis
    by (cases rule: sendEmptyReport_step_cases) (auto simp: inv_poll_def sent_by_def)
next
  case reader
  with poll_step [OF assms(1,3)] have "s' = s\<lparr>loads := Suc (loads s)\<rparr>"
    by (simp add: step_def)
  with assms(3) show ?thesis by (simp add: inv_poll_def sent_by_def)
next
  case writer
  from writer(2) assms(3) show ?thesis
    by (cases rule: processInputQueue_step_cases) (auto simp: inv_poll_def sent_by_def)
qed

lemma inv_poll_exec:
  assumes "\<forall>n. loadResult env n = EAGAIN" and "inv_poll s"
  shows "inv_poll (exec env es s)"
  using inv_poll_step [OF assms(1)] assms(2)
  by (rule exec_step_invariant [where P = inv_poll, rotated 2])

lemma poll_loads_step:
  assumes "\<forall>n. loadResult env n = EAGAIN" and "inv_poll s"
  shows "loads (step_or_stay env e s) = loads s + (if e = Run Reader then 1 else 0)"
proof (cases "step env e s")
  case None
  with poll_step [OF assms] show ?thesis
    by (auto simp: step_or_stay_def)
next
  case (Some s')
  then show ?thesis
  proof (cases rule: step_cases)
    case (advance d)
    with Some show ?thesis by (simp add: step_or_stay_def)
  next
    case bootstrap
    from bootstrap(2) Some bootstrap(1) show ?thesis
      by (cases rule: sendEmptyReport_step_cases) (auto simp: step_or_stay_def)
  next
    case reader
    with poll_step [OF assms] show ?thesis by (simp add: step_or_stay_def)
  next
    case writer
    from writer(2) Some writer(1) show ?thesis
      by (cases rule: processInputQueue_step_cases) (auto simp: step_or_stay_def)
  qed
qed

lemma poll_loads_exec:
  assumes "\<forall>n. loadResult env n = EAGAIN" and "inv_poll s"
  shows "loads (exec env es s) = loads s + length (filter (\<lambda>e. e = Run Reader) es)"
  using assms(2)
proof (induction es arbitrary: s)
  case Nil
  then show ?case by simp
next
  case (Cons e es)
  have "inv_poll (step_or_stay env e s)"
    using inv_poll_exec [OF assms(1) Cons.prems, of "[e]"] by simp
  from Cons.IH [OF this] poll_loads_step [OF assms(1) Cons.prems, of e]
  show ?case by simp
qed

subsection \<open>The read loop after a framing error, and returned tasks\<close>

lemma inv_reset_step:
  assumes "step env e s = Some s'" and "inv_reset n d rs r s"
  shows "inv_reset n d rs r s'"
  using assms(1)
proof (cases rule: step_cases)
  case (advance d)
  with assms(2) show ?thesis by (simp add: inv_reset_def sent_by_def)
next
  case bootstrap
  from bootstrap(2) assms(2) show ?thesis
    by (cases rule: sendEmptyReport_step_cases) (auto simp: inv_reset_def sent_by_def)
next
  case reader
  from reader(3) assms(2) show ?thesis
    by (cases rule: readOutputReport_step_cases)
       (auto simp: inv_reset_def sent_by_def reader_after_def)
next
  case writer
  from writer(2) assms(2) show ?thesis
    by (cases rule: processInputQueue_step_cases) (auto simp: inv_reset_def sent_by_def)
qed

lemma inv_reset_exec: "inv_reset n d rs r s \<Longrightarrow> inv_reset n d rs r (exec env es s)"
  using inv_reset_step
  by (rule exec_step_invariant [where P = "inv_reset n d rs r", rotated 2])

lemma reset_step:
  assumes "reader s = RLoad" and "framing_error (loadResult env (loads s))"
  shows "step env (Run Reader) s =
     Some (s\<lparr>reader := RSending [standardReport (imuEnabled (proto s))] Return,
             loads := Suc (loads s)\<rparr>)"
  using assms
  by (simp add: step_def readOutputReport_step_def body_framing reader_after_def)

lemma returned_step:
  assumes "step env e s = Some s'" and "reader s = RReturned"
  shows "reader s' = RReturned \<and> loads s' = loads s \<and> dispatched s' = dispatched s \<and>
     sent_by Reader s' = sent_by Reader s"
  using assms(1)
proof (cases rule: step_cases)
  case (advance d)
  then show ?thesis by (simp add: sent_by_def assms(2))
next
  case bootstrap
  from bootstrap(2) assms(2) show ?thesis
    by (cases rule: sendEmptyReport_step_cases) (auto simp: sent_by_def)
next
  case reader
  from reader(3) assms(2) show ?thesis
    by (cases rule: readOutputReport_step_cases) auto
next
  case writer
  from writer(2) assms(2) show ?thesis
    by (cases rule: processInputQueue_step_cases) (auto simp: sent_by_def)
qed

lemma returned_exec:
  assumes "reader s = RReturned"
  shows "reader (exec env es s) = RReturned \<and> loads (exec env es s) = loads s \<and>
     dispatched (exec env es s) = dispatched s \<and>
     sent_by Reader (exec env es s) = sent_by Reader s"
proof (rule exec_step_invariant [where s = s and P = "\<lambda>x. reader x = RReturned \<and>
        loads x = loads s \<and> dispatched x = dispatched s \<and>
        sent_by Reader x = sent_by Reader s"])
  fix e x x'
  assume "reader x = RReturned \<and> loads x = loads s \<and> dispatched x = dispatched s \<and>
        sent_by Reader x = sent_by Reader s" and "step env e x = Some x'"
  then show "reader x' = RReturned \<and> loads x' = loads s \<and> dispatched x' = dispatched s \<and>
        sent_by Reader x' = sent_by Reader s"
    using returned_step [of env e x x'] by simp
qed (simp add: assms)

lemma boot_returned_step:
  assumes "step env e s = Some s'" and "boot s = BReturned"
  shows "boot s' = BReturned \<and> sent_by Bootstrap s' = sent_by Bootstrap s"
  using assms(1)
proof (cases rule: step_cases)
  case (advance d)
  then show ?thesis by (simp add: sent_by_def assms(2))
next
  case bootstrap
  from bootstrap(2) assms(2) show ?thesis
    by (cases rule: sendEmptyReport_step_cases) auto
next
  case reader
  from reader(3) assms(2) show ?thesis
    by (cases rule: readOutputReport_step_cases) (auto simp: sent_by_def)
next
  case writer
  from writer(2) assms(2) show ?thesis
    by (cases rule: processInputQueue_step_cases) (auto simp: sent_by_def)
qed

lemma boot_returned_exec:
  assumes "boot s = BReturned"
  shows "boot (exec env es s) = BReturned \<and>
     sent_by Bootstrap (exec env es s) = sent_by Bootstrap s"
proof (rule exec_step_invariant [where s = s and P = "\<lambda>x. boot x = BReturned \<and>
        sent_by Bootstrap x = sent_by Bootstrap s"])
  fix e x x'
  assume "boot x = BReturned \<and> sent_by Bootstrap x = sent_by Bootstrap s"
    and "step env e x = Some x'"
  then show "boot x' = BReturned \<and> sent_by Bootstrap x' = sent_by Bootstrap s"
    using boot_returned_step [of env e x x'] by simp
qed (simp add: assms)

lemma reader_send_step:
  assumes "reader s = RSending [r] ctl"
    and "length (buf (queue (proto s))) < cap (queue (proto s))"
  shows "readOutputReport_step env s =
     Some (s\<lparr>proto := (proto s)\<lparr>queue := (queue (proto s))\<lparr>buf := buf (queue (proto s)) @ [r]\<rparr>\<rparr>,
             sent := sent s @ [(Reader, r)], reader := reader_after [] ctl\<rparr>)"
  using assms by (simp add: readOutputReport_step_def send_queue_def chan_send_def)

lemma boot_send_step:
  assumes "boot s = BSending [r]"
    and "length (buf (queue (proto s))) < cap (queue (proto s))"
  shows "sendEmptyReport_step s =
     Some (s\<lparr>proto := (proto s)\<lparr>queue := (queue (proto s))\<lparr>buf := buf (queue (proto s)) @ [r]\<rparr>\<rparr>,
             sent := sent s @ [(Bootstrap, r)], boot := BReturned\<rparr>)"
  using assms
  by (simp add: sendEmptyReport_step_def send_queue_def chan_send_def boot_after_def)

lemma reader_blocked:
  assumes "reader s = RSending rs ctl" and "rs \<noteq> []"
    and "\<not> length (buf (queue (proto s))) < cap (queue (proto s))"
  shows "readOutputReport_step env s = None"
  using assms
  by (cases rs) (simp_all add: readOutputReport_step_def send_queue_def chan_send_def)

lemma boot_blocked:
  assumes "boot s = BSending rs" and "rs \<noteq> []"
    and "\<not> length (buf (queue (proto s))) < cap (queue (proto s))"
  shows "sendEmptyReport_step s = None"
  using assms
  by (cases rs) (simp_all add: sendEmptyReport_step_def send_queue_def chan_send_def)

lemma writer_step_full:
  assumes "buf (queue (proto s)) = r # rs"
  shows "processInputQueue_step env s =
     Some (s\<lparr>proto := (proto s)\<lparr>queue := (queue (proto s))\<lparr>buf := rs\<rparr>\<rparr>,
             written := written s @ [(r, writeOk env (length (written s)))]\<rparr>)"
  using assms by (simp add: processInputQueue_step_def chan_recv_def)

lemma writer_makes_room:
  assumes "inv_queue x" and "reader x \<noteq> RPanicked"
  shows "length (buf (queue (proto (step_or_stay env (Run Writer) x)))) <
           cap (queue (proto (step_or_stay env (Run Writer) x))) \<and>
         reader (step_or_stay env (Run Writer) x) = reader x \<and>
         boot (step_or_stay env (Run Writer) x) = boot x \<and>
         sent (step_or_stay env (Run Writer) x) = sent x"
proof (cases "step env (Run Writer) x")
  case None
  with assms(2) have "processInputQueue_step env x = None" by (simp add: step_def)
  then have "buf (queue (proto x)) = []"
    by (simp add: processInputQueue_step_def chan_recv_def split: list.splits)
  with assms None show ?thesis by (simp add: step_or_stay_def inv_queue_def)
next
  case (Some x')
  then have "processInputQueue_step env x = Some x'"
    by (simp add: step_def split: if_splits)
  then show ?thesis
    using assms Some
    by (cases rule: processInputQueue_step_cases) (auto simp: step_or_stay_def inv_queue_def)
qed

lemma reader_sends_after_writer:
  assumes "inv_queue x" and "reader x = RSending [r] ctl"
  shows "reader (exec env [Run Writer, Run Reader] x) = reader_after [] ctl \<and>
     sent_by Reader (exec env [Run Writer, Run Reader] x) = sent_by Reader x @ [r]"
proof -
  define y where "y = step_or_stay env (Run Writer) x"
  from assms have "reader x \<noteq> RPanicked" by simp
  from writer_makes_room [OF assms(1) this, of env] assms(2)
  have room: "length (buf (queue (proto y))) < cap (queue (proto y))"
    and rd: "reader y = RSending [r] ctl" and st: "sent y = sent x"
    by (simp_all add: y_def)
  from reader_send_step [OF rd room, of env] rd st
  have "reader (step_or_stay env (Run Reader) y) = reader_after [] ctl \<and>
     sent_by Reader (step_or_stay env (Run Reader) y) = sent_by Reader x @ [r]"
    by (simp add: step_or_stay_def step_def sent_by_def)
  then show ?thesis by (simp add: y_def)
qed

lemma boot_sends_after_writer:
  assumes "inv_queue x" and "boot x = BSending [r]" and "reader x \<noteq> RPanicked"
  shows "boot (exec env [Run Writer, Run Bootstrap] x) = BReturned \<and>
     sent_by Bootstrap (exec env [Run Writer, Run Bootstrap] x) = sent_by Bootstrap x @ [r]"
proof -
  define y where "y = step_or_stay env (Run Writer) x"
  from writer_makes_room [OF assms(1,3), of env] assms(2,3)
  have room: "length (buf (queue (proto y))) < cap (queue (proto y))"
    and bt: "boot y = BSending [r]" and st: "sent y = sent x"
    and np: "reader y \<noteq> RPanicked"
    by (simp_all add: y_def)
  from boot_send_step [OF bt room] bt st np
  have "boot (step_or_stay env (Run Bootstrap) y) = BReturned \<and>
     sent_by Bootstrap (step_or_stay env (Run Bootstrap) y) = sent_by Bootstrap x @ [r]"
    by (simp add: step_or_stay_def step_def sent_by_def)
  then show ?thesis by (simp add: y_def)
qed

lemma only_writer_dequeues:
  assumes "step env e s = Some s'"
    and "length (buf (queue (proto s'))) < length (buf (queue (proto s)))"
  shows "e = Run Writer"
  using assms(1)
proof (cases rule: step_cases)
  case (advance d)
  with assms(2) show ?thesis by simp
next
  case bootstrap
  from bootstrap(2) assms(2) show ?thesis
    by (cases rule: sendEmptyReport_step_cases) auto
next
  case reader
  from reader(3) show ?thesis
  proof (cases rule: readOutputReport_step_cases)
    case (load p rs calls ctl)
    with body_Inr(1) [OF load(2)] assms(2) show ?thesis by simp
  qed (use assms(2) in auto)
next
  case writer
  then show ?thesis by simp
qed

lemmas run_defs = Setup_def step_or_stay_def step_def readOutputReport_step_def
  readOutputReport_body_def sendEmptyReport_step_def processInputQueue_step_def
  send_queue_def chan_send_def chan_recv_def reader_after_def boot_after_def
  processSubcommandReport_def updateTimer_eq processStandardFullReport_eq
  NewProtocol_def make_chan_def sent_by_def

subsection \<open>The device-info flag\<close>

text \<open>
  C3. In every state the engine reaches from \<open>Setup\<close> on a new \<open>Protocol\<close>, under
  any schedule and any behaviour of the channel, the device-info flag is true exactly
  when \<open>RequestDeviceInfo\<close> is among the subcommands dispatched so far: false before
  the first one, true after it. From any state whatever, no step of any task takes the
  flag from true to false; and a dispatch that completes leaves the flag as it was, or
  true when the subcommand is \<open>RequestDeviceInfo\<close>.
\<close>

theorem deviceInfoRequired_sticky:
  "(Setup NewProtocol False t0 mac = Some s0 \<longrightarrow>
      deviceInfoRequired (proto (exec env es s0)) =
        (RequestDeviceInfo \<in> set (dispatched (exec env es s0)))) \<and>
   (deviceInfoRequired (proto s) \<longrightarrow> deviceInfoRequired (proto (exec env es s))) \<and>
   (processSubcommandReport p now report = Inr (p', rs) \<longrightarrow>
      deviceInfoRequired p' =
        (deviceInfoRequired p \<or> getSubcommand report = RequestDeviceInfo))"
proof (intro conjI impI)
  assume "Setup NewProtocol False t0 mac = Some s0"
  then have "inv_deviceInfo (exec env es s0)"
    by (intro inv_deviceInfo_exec Setup_invariants)
  then show "deviceInfoRequired (proto (exec env es s0)) =
        (RequestDeviceInfo \<in> set (dispatched (exec env es s0)))"
    by (simp add: inv_deviceInfo_def)
next
  assume "deviceInfoRequired (proto s)"
  then show "deviceInfoRequired (proto (exec env es s))"
    by (rule deviceInfoRequired_exec)
next
  assume "processSubcommandReport p now report = Inr (p', rs)"
  from psr_Inr [OF this] show "deviceInfoRequired p' =
        (deviceInfoRequired p \<or> getSubcommand report = RequestDeviceInfo)"
    by (simp add: stateAfter_def)
qed

theorem deviceInfoRequired_sticky_witness:
  "Setup NewProtocol False 0 [] =
     Some \<lparr>proto = NewProtocol\<lparr>macAddr := []\<rparr>, wall = 0, boot = BStart, reader = RLoad,
           loads = 0, dispatched = [], sent = [], written = []\<rparr> \<and>
   deviceInfoRequired (proto (exec
     \<lparr>loadResult = (\<lambda>n. Loaded \<lparr>id_out = RumbleAndSubcommand,
        getSubcommand = RequestDeviceInfo, getSubcommandData = []\<rparr>),
      writeOk = (\<lambda>n. True)\<rparr>
     [Run Reader]
     \<lparr>proto = NewProtocol\<lparr>macAddr := []\<rparr>, wall = 0, boot = BStart, reader = RLoad,
      loads = 0, dispatched = [], sent = [], written = []\<rparr>)) \<and>
   deviceInfoRequired (proto (exec
     \<lparr>loadResult = (\<lambda>n. EAGAIN), writeOk = (\<lambda>n. True)\<rparr>
     [Run Reader]
     \<lparr>proto = NewProtocol\<lparr>deviceInfoRequired := True\<rparr>, wall = 0, boot = BStart,
      reader = RLoad, loads = 0, dispatched = [], sent = [], written = []\<rparr>)) \<and>
   processSubcommandReport (NewProtocol\<lparr>deviceInfoRequired := True\<rparr>) 8
     \<lparr>id_out = RumbleAndSubcommand, getSubcommand = SetPlayerLights,
      getSubcommandData = []\<rparr> =
   Inr (NewProtocol\<lparr>deviceInfoRequired := True, elapsed := 255, lastTime := 8\<rparr>,
        [\<lparr>reportId = Some SubcommandReplies, imuData = None,
          standardData = Some (255, True), ack = Some AckSetPlayerLights\<rparr>])"
  using deviceInfoRequired_sticky
    [where ?t0.0 = 0 and mac = "[]"
       and ?s0.0 = "\<lparr>proto = NewProtocol\<lparr>macAddr := []\<rparr>, wall = 0, boot = BStart,
          reader = RLoad, loads = 0, dispatched = [], sent = [], written = []\<rparr>"
       and env = "\<lparr>loadResult = (\<lambda>n. Loaded \<lparr>id_out = RumbleAndSubcommand,
          getSubcommand = RequestDeviceInfo, getSubcommandData = []\<rparr>),
          writeOk = (\<lambda>n. True)\<rparr>"
       and es = "[Run Reader]"
       and s = "\<lparr>proto = NewProtocol\<lparr>deviceInfoRequired := True\<rparr>, wall = 0,
          boot = BStart, reader = RLoad, loads = 0, dispatched = [], sent = [],
          written = []\<rparr>"
       and p = "NewProtocol\<lparr>deviceInfoRequired := True\<rparr>" and now = 8
       and report = "\<lparr>id_out = RumbleAndSubcommand, getSubcommand = SetPlayerLights,
          getSubcommandData = []\<rparr>"
       and p' = "NewProtocol\<lparr>deviceInfoRequired := True, elapsed := 255, lastTime := 8\<rparr>"
       and rs = "[\<lparr>reportId = Some SubcommandReplies, imuData = None,
          standardData = Some (255, True), ack = Some AckSetPlayerLights\<rparr>]"]
    deviceInfoRequired_sticky
    [where s = "\<lparr>proto = NewProtocol\<lparr>deviceInfoRequired := True\<rparr>, wall = 0,
          boot = BStart, reader = RLoad, loads = 0, dispatched = [], sent = [],
          written = []\<rparr>"
       and env = "\<lparr>loadResult = (\<lambda>n. EAGAIN), writeOk = (\<lambda>n. True)\<rparr>"
       and es = "[Run Reader]"]
  by (simp add: run_defs answerDeviceInfo_def answerSetPlayerLights_def builder_defs)

subsection \<open>Framing errors\<close>

text \<open>
  C6. In a state reached from \<open>Setup\<close> where the read loop is about to call
  \<open>load\<close> and \<open>load\<close> yields \<open>errEmptyData\<close>, \<open>errBadLengthData\<close> or
  \<open>errMalformedData\<close>, the loop takes that result, changes nothing in the protocol
  state and stands at the send of one unsolicited standard report \<open>r\<close>, after which it
  returns. Under every schedule that follows, \<open>load\<close> is not called again and nothing
  more is dispatched; the loop has either not yet sent \<open>r\<close> or has sent exactly \<open>r\<close>
  and returned. While it has not, one turn of the writer loop and one of the read loop
  complete the send and the return. The returned loop has no step.
\<close>

theorem framing_error_resets_and_stops:
  assumes "Setup NewProtocol False t0 mac = Some s0"
    and "s = exec env es0 s0"
    and "reader s = RLoad" and "framing_error (loadResult env (loads s))"
    and "r = standardReport (imuEnabled (proto s))"
  shows "\<exists>s1. step env (Run Reader) s = Some s1 \<and> proto s1 = proto s \<and>
     sent s1 = sent s \<and> reader s1 = RSending [r] Return \<and>
     (\<forall>es. loads (exec env es s1) = Suc (loads s) \<and>
        dispatched (exec env es s1) = dispatched s \<and>
        (reader (exec env es s1) = RSending [r] Return \<and>
           sent_by Reader (exec env es s1) = sent_by Reader s \<or>
         reader (exec env es s1) = RReturned \<and>
           sent_by Reader (exec env es s1) = sent_by Reader s @ [r]) \<and>
        (reader (exec env es s1) = RSending [r] Return \<longrightarrow>
           reader (exec env [Run Writer, Run Reader] (exec env es s1)) = RReturned) \<and>
        (reader (exec env es s1) = RReturned \<longrightarrow>
           step env (Run Reader) (exec env es s1) = None))"
proof -
  define s1 where "s1 = s\<lparr>reader := RSending [r] Return, loads := Suc (loads s)\<rparr>"
  have st: "step env (Run Reader) s = Some s1"
    unfolding s1_def assms(5) by (rule reset_step [OF assms(3,4)])
  have "inv_queue s"
    unfolding assms(2) by (intro inv_queue_exec Setup_invariants [OF assms(1)])
  then have q1: "inv_queue s1"
    by (simp add: inv_queue_def s1_def)
  have inv1: "inv_reset (Suc (loads s)) (dispatched s) (sent_by Reader s) r s1"
    by (simp add: inv_reset_def s1_def sent_by_def)
  have rest: "loads (exec env es s1) = Suc (loads s) \<and>
        dispatched (exec env es s1) = dispatched s \<and>
        (reader (exec env es s1) = RSending [r] Return \<and>
           sent_by Reader (exec env es s1) = sent_by Reader s \<or>
         reader (exec env es s1) = RReturned \<and>
           sent_by Reader (exec env es s1) = sent_by Reader s @ [r]) \<and>
        (reader (exec env es s1) = RSending [r] Return \<longrightarrow>
           reader (exec env [Run Writer, Run Reader] (exec env es s1)) = RReturned) \<and>
        (reader (exec env es s1) = RReturned \<longrightarrow>
           step env (Run Reader) (exec env es s1) = None)" for es
  proof -
    define x where "x = exec env es s1"
    have "inv_reset (Suc (loads s)) (dispatched s) (sent_by Reader s) r x"
      unfolding x_def by (rule inv_reset_exec [OF inv1])
    moreover have qx: "inv_queue x"
      unfolding x_def by (rule inv_queue_exec [OF q1])
    have "reader (exec env [Run Writer, Run Reader] x) = RReturned"
      if "reader x = RSending [r] Return"
      using reader_sends_after_writer [OF qx that, of env] by (simp add: reader_after_def)
    moreover have "step env (Run Reader) x = None" if "reader x = RReturned"
      using that by (simp add: step_def readOutputReport_step_def)
    ultimately show ?thesis
      unfolding x_def [symmetric] by (auto simp: inv_reset_def)
  qed
  from st rest show ?thesis
    by (intro exI [of _ s1]) (simp add: s1_def)
qed

theorem framing_error_resets_and_stops_witness:
  "Setup NewProtocol False 0 [] =
     Some \<lparr>proto = NewProtocol\<lparr>macAddr := []\<rparr>, wall = 0, boot = BStart, reader = RLoad,
           loads = 0, dispatched = [], sent = [], written = []\<rparr> \<and>
   reader \<lparr>proto = NewProtocol\<lparr>macAddr := []\<rparr>, wall = 0, boot = BStart, reader = RLoad,
      loads = 0, dispatched = [], sent = [], written = []\<rparr> = RLoad \<and>
   framing_error (loadResult \<lparr>loadResult = (\<lambda>n. errMalformedData), writeOk = (\<lambda>n. True)\<rparr>
      (loads \<lparr>proto = NewProtocol\<lparr>macAddr := []\<rparr>, wall = 0, boot = BStart,
         reader = RLoad, loads = 0, dispatched = [], sent = [], written = []\<rparr>)) \<and>
   exec \<lparr>loadResult = (\<lambda>n. errMalformedData), writeOk = (\<lambda>n. True)\<rparr>
     [Run Reader, Run Reader, Run Reader]
     \<lparr>proto = NewProtocol\<lparr>macAddr := []\<rparr>, wall = 0, boot = BStart, reader = RLoad,
      loads = 0, dispatched = [], sent = [], written = []\<rparr> =
   \<lparr>proto = NewProtocol\<lparr>queue := \<lparr>buf = [standardReport False], cap = 5\<rparr>\<rparr>,
    wall = 0, boot = BStart, reader = RReturned,
    loads = 1, dispatched = [], sent = [(Reader, standardReport False)], written = []\<rparr> \<and>
   (\<exists>s1. step \<lparr>loadResult = (\<lambda>n. errMalformedData), writeOk = (\<lambda>n. True)\<rparr> (Run Reader)
       \<lparr>proto = NewProtocol\<lparr>macAddr := []\<rparr>, wall = 0, boot = BStart, reader = RLoad,
        loads = 0, dispatched = [], sent = [], written = []\<rparr> = Some s1 \<and>
      reader (exec \<lparr>loadResult = (\<lambda>n. errMalformedData), writeOk = (\<lambda>n. True)\<rparr>
        [Run Writer, Run Reader] s1) = RReturned)"
  using framing_error_resets_and_stops
    [where env = "\<lparr>loadResult = (\<lambda>n. errMalformedData), writeOk = (\<lambda>n. True)\<rparr>"
       and ?t0.0 = 0 and mac = "[]"
       and ?s0.0 = "\<lparr>proto = NewProtocol\<lparr>macAddr := []\<rparr>, wall = 0, boot = BStart,
          reader = RLoad, loads = 0, dispatched = [], sent = [], written = []\<rparr>"
       and ?es0.0 = "[]",
     OF _ _ _ _ refl]
  by (auto simp: run_defs framing_error_def)

subsection \<open>A channel that always would block\<close>

text \<open>
  C7. On a channel where every \<open>load\<close> yields \<open>EAGAIN\<close>, in every state reached
  from \<open>Setup\<close> under any schedule the read loop is about to call \<open>load\<close> again: it
  has not returned, it has dispatched nothing and has sent nothing on the queue. Every
  turn it got made one call of \<open>load\<close>, and its next turn is enabled and makes one
  more.
\<close>

theorem would_block_polls_forever:
  assumes "\<forall>n. loadResult env n = EAGAIN"
    and "Setup NewProtocol False t0 mac = Some s0"
    and "s = exec env es s0"
  shows "reader s = RLoad \<and> dispatched s = [] \<and> sent_by Reader s = [] \<and>
     loads s = length (filter (\<lambda>e. e = Run Reader) es) \<and>
     step env (Run Reader) s = Some (s\<lparr>loads := Suc (loads s)\<rparr>)"
proof -
  have s0: "inv_poll s0" "loads s0 = 0"
    using Setup_invariants(5) [OF assms(2)] Setup_Some [OF assms(2)] by simp_all
  have inv: "inv_poll s"
    unfolding assms(3) by (rule inv_poll_exec [OF assms(1) s0(1)])
  have "loads s = length (filter (\<lambda>e. e = Run Reader) es)"
    unfolding assms(3) using poll_loads_exec [OF assms(1) s0(1), of es] s0(2) by simp
  with inv poll_step [OF assms(1) inv] show ?thesis
    by (simp add: inv_poll_def)
qed

theorem would_block_polls_forever_witness:
  "(\<forall>n. loadResult \<lparr>loadResult = (\<lambda>n. EAGAIN), writeOk = (\<lambda>n. True)\<rparr> n = EAGAIN) \<and>
   Setup NewProtocol False 0 [] =
     Some \<lparr>proto = NewProtocol\<lparr>macAddr := []\<rparr>, wall = 0, boot = BStart, reader = RLoad,
           loads = 0, dispatched = [], sent = [], written = []\<rparr> \<and>
   reader (exec \<lparr>loadResult = (\<lambda>n. EAGAIN), writeOk = (\<lambda>n. True)\<rparr>
     [Run Reader, Run Bootstrap, Run Reader, Run Writer, Run Reader]
     \<lparr>proto = NewProtocol\<lparr>macAddr := []\<rparr>, wall = 0, boot = BStart, reader = RLoad,
      loads = 0, dispatched = [], sent = [], written = []\<rparr>) = RLoad \<and>
   loads (exec \<lparr>loadResult = (\<lambda>n. EAGAIN), writeOk = (\<lambda>n. True)\<rparr>
     [Run Reader, Run Bootstrap, Run Reader, Run Writer, Run Reader]
     \<lparr>proto = NewProtocol\<lparr>macAddr := []\<rparr>, wall = 0, boot = BStart, reader = RLoad,
      loads = 0, dispatched = [], sent = [], written = []\<rparr>) = 3"
  using would_block_polls_forever
    [where env = "\<lparr>loadResult = (\<lambda>n. EAGAIN), writeOk = (\<lambda>n. True)\<rparr>"
       and ?t0.0 = 0 and mac = "[]"
       and ?s0.0 = "\<lparr>proto = NewProtocol\<lparr>macAddr := []\<rparr>, wall = 0, boot = BStart,
          reader = RLoad, loads = 0, dispatched = [], sent = [], written = []\<rparr>"
       and es = "[Run Reader, Run Bootstrap, Run Reader, Run Writer, Run Reader]",
     OF _ _ refl]
  by (simp add: Setup_def)

subsection \<open>The report queue\<close>

text \<open>
  C8. In every state reached from \<open>Setup\<close> on a new \<open>Protocol\<close> the queue has
  capacity 5 and holds at most 5 reports, and the reports written so far followed by the
  reports in the queue are the reports sent, in the order of the sends (first in, first
  out). Only a step of the writer loop makes the queue shorter. When the queue holds 5
  reports no send is enabled: the read loop and the bootstrap task, if they stand at a
  send, are suspended; the writer loop is enabled, takes the oldest report, and then a
  send is enabled.
\<close>

theorem queue_bounded_fifo:
  assumes "Setup NewProtocol False t0 mac = Some s0"
    and "s = exec env es s0"
  shows "cap (queue (proto s)) = 5 \<and> length (buf (queue (proto s))) \<le> 5 \<and>
     map fst (written s) @ buf (queue (proto s)) = map snd (sent s) \<and>
     (\<forall>e s'. step env e s = Some s' \<and>
        length (buf (queue (proto s'))) < length (buf (queue (proto s))) \<longrightarrow>
        e = Run Writer) \<and>
     (length (buf (queue (proto s))) = 5 \<longrightarrow>
        (\<forall>r. chan_send (queue (proto s)) r = None) \<and>
        (\<forall>rs ctl. reader s = RSending rs ctl \<longrightarrow> readOutputReport_step env s = None) \<and>
        (\<forall>rs. boot s = BSending rs \<longrightarrow> sendEmptyReport_step s = None) \<and>
        (\<exists>s'. processInputQueue_step env s = Some s' \<and>
           length (buf (queue (proto s'))) = 4 \<and>
           (\<forall>r. chan_send (queue (proto s')) r \<noteq> None) \<and>
           reader s' = reader s \<and> boot s' = boot s \<and>
           written s' =
             written s @ [(hd (buf (queue (proto s))), writeOk env (length (written s)))]))"
proof -
  have q: "inv_queue s" and pend: "inv_pending s"
    unfolding assms(2)
    by (intro inv_queue_exec inv_pending_exec Setup_invariants [OF assms(1)])+
  from q have cap: "cap (queue (proto s)) = 5" and le: "length (buf (queue (proto s))) \<le> 5"
    and fifo: "map fst (written s) @ buf (queue (proto s)) = map snd (sent s)"
    by (simp_all add: inv_queue_def)
  have deq: "\<forall>e s'. step env e s = Some s' \<and>
        length (buf (queue (proto s'))) < length (buf (queue (proto s))) \<longrightarrow>
        e = Run Writer"
    using only_writer_dequeues by blast
  have full: "(\<forall>r. chan_send (queue (proto s)) r = None) \<and>
        (\<forall>rs ctl. reader s = RSending rs ctl \<longrightarrow> readOutputReport_step env s = None) \<and>
        (\<forall>rs. boot s = BSending rs \<longrightarrow> sendEmptyReport_step s = None) \<and>
        (\<exists>s'. processInputQueue_step env s = Some s' \<and>
           length (buf (queue (proto s'))) = 4 \<and>
           (\<forall>r. chan_send (queue (proto s')) r \<noteq> None) \<and>
           reader s' = reader s \<and> boot s' = boot s \<and>
           written s' =
             written s @ [(hd (buf (queue (proto s))), writeOk env (length (written s)))])"
    if len: "length (buf (queue (proto s))) = 5"
  proof (intro conjI allI impI)
    fix r show "chan_send (queue (proto s)) r = None"
      using len cap by (simp add: chan_send_def)
  next
    fix rs ctl assume r: "reader s = RSending rs ctl"
    with pend have "rs \<noteq> []" by (simp add: inv_pending_def)
    with r show "readOutputReport_step env s = None"
      using len cap by (intro reader_blocked) simp_all
  next
    fix rs assume b: "boot s = BSending rs"
    with pend have "rs \<noteq> []" by (simp add: inv_pending_def)
    with b show "sendEmptyReport_step s = None"
      using len cap by (intro boot_blocked) simp_all
  next
    from len obtain r rs where buf: "buf (queue (proto s)) = r # rs"
      by (cases "buf (queue (proto s))") auto
    with len have "length rs = 4" by simp
    with writer_step_full [OF buf, of env] buf cap
    show "\<exists>s'. processInputQueue_step env s = Some s' \<and>
           length (buf (queue (proto s'))) = 4 \<and>
           (\<forall>r. chan_send (queue (proto s')) r \<noteq> None) \<and>
           reader s' = reader s \<and> boot s' = boot s \<and>
           written s' =
             written s @ [(hd (buf (queue (proto s))), writeOk env (length (written s)))]"
      by (simp add: chan_send_def)
  qed
  from cap le fifo deq full show ?thesis by blast
qed

lemma full_queue_run:
  "length (buf (queue (proto (exec
     \<lparr>loadResult = (\<lambda>n. Loaded \<lparr>id_out = RumbleAndSubcommand,
        getSubcommand = SetPlayerLights, getSubcommandData = []\<rparr>),
      writeOk = (\<lambda>n. True)\<rparr>
     [Run Reader, Run Reader, Run Reader, Run Reader, Run Reader, Run Reader,
      Run Reader, Run Reader, Run Reader, Run Reader, Run Reader]
     \<lparr>proto = NewProtocol\<lparr>macAddr := []\<rparr>, wall = 0, boot = BStart, reader = RLoad,
      loads = 0, dispatched = [], sent = [], written = []\<rparr>)))) = 5"
  "reader (exec
     \<lparr>loadResult = (\<lambda>n. Loaded \<lparr>id_out = RumbleAndSubcommand,
        getSubcommand = SetPlayerLights, getSubcommandData = []\<rparr>),
      writeOk = (\<lambda>n. True)\<rparr>
     [Run Reader, Run Reader, Run Reader, Run Reader, Run Reader, Run Reader,
      Run Reader, Run Reader, Run Reader, Run Reader, Run Reader]
     \<lparr>proto = NewProtocol\<lparr>macAddr := []\<rparr>, wall = 0, boot = BStart, reader = RLoad,
      loads = 0, dispatched = [], sent = [], written = []\<rparr>) =
   RSending [\<lparr>reportId = Some SubcommandReplies, imuData = None,
      standardData = Some (255, False), ack = Some AckSetPlayerLights\<rparr>] Continue"
  by (simp_all add: run_defs answerSetPlayerLights_def builder_defs)

theorem queue_bounded_fifo_witness:
  "Setup NewProtocol False 0 [] =
     Some \<lparr>proto = NewProtocol\<lparr>macAddr := []\<rparr>, wall = 0, boot = BStart, reader = RLoad,
           loads = 0, dispatched = [], sent = [], written = []\<rparr> \<and>
   length (buf (queue (proto (exec
     \<lparr>loadResult = (\<lambda>n. Loaded \<lparr>id_out = RumbleAndSubcommand,
        getSubcommand = SetPlayerLights, getSubcommandData = []\<rparr>),
      writeOk = (\<lambda>n. True)\<rparr>
     [Run Reader, Run Reader, Run Reader, Run Reader, Run Reader, Run Reader,
      Run Reader, Run Reader, Run Reader, Run Reader, Run Reader]
     \<lparr>proto = NewProtocol\<lparr>macAddr := []\<rparr>, wall = 0, boot = BStart, reader = RLoad,
      loads = 0, dispatched = [], sent = [], written = []\<rparr>)))) = 5 \<and>
   readOutputReport_step
     \<lparr>loadResult = (\<lambda>n. Loaded \<lparr>id_out = RumbleAndSubcommand,
        getSubcommand = SetPlayerLights, getSubcommandData = []\<rparr>),
      writeOk = (\<lambda>n. True)\<rparr>
     (exec
     \<lparr>loadResult = (\<lambda>n. Loaded \<lparr>id_out = RumbleAndSubcommand,
        getSubcommand = SetPlayerLights, getSubcommandData = []\<rparr>),
      writeOk = (\<lambda>n. True)\<rparr>
     [Run Reader, Run Reader, Run Reader, Run Reader, Run Reader, Run Reader,
      Run Reader, Run Reader, Run Reader, Run Reader, Run Reader]
     \<lparr>proto = NewProtocol\<lparr>macAddr := []\<rparr>, wall = 0, boot = BStart, reader = RLoad,
      loads = 0, dispatched = [], sent = [], written = []\<rparr>) = None"
proof -
  have su: "Setup NewProtocol False 0 [] =
     Some \<lparr>proto = NewProtocol\<lparr>macAddr := []\<rparr>, wall = 0, boot = BStart, reader = RLoad,
           loads = 0, dispatched = [], sent = [], written = []\<rparr>"
    by (simp add: Setup_def)
  from queue_bounded_fifo [OF su refl,
      of "\<lparr>loadResult = (\<lambda>n. Loaded \<lparr>id_out = RumbleAndSubcommand,
          getSubcommand = SetPlayerLights, getSubcommandData = []\<rparr>),
          writeOk = (\<lambda>n. True)\<rparr>"
         "[Run Reader, Run Reader, Run Reader, Run Reader, Run Reader, Run Reader,
          Run Reader, Run Reader, Run Reader, Run Reader, Run Reader]"]
    full_queue_run su
  show ?thesis by blast
qed

subsection \<open>The bootstrap task\<close>

text \<open>
  C9. In every state reached from \<open>Setup\<close> at time \<open>t0\<close>: before its tick the
  bootstrap task has sent nothing, the tick is due no earlier than one second after
  \<open>t0\<close>, the task is suspended while the clock is before the deadline, and at the tick
  it builds the unsolicited standard report from the motion-sensor flag of the state at
  that moment. At the send it holds exactly one such report, which it sends as soon as the
  queue has room; while the process runs, one turn of the writer loop and one of the task
  complete the send. After it returned it has sent exactly one unsolicited standard report,
  not before \<open>t0\<close> plus one second; it has no further step, and under every schedule
  that follows it stays returned and sends nothing more.
\<close>

theorem bootstrap_sends_once:
  assumes "Setup NewProtocol False t0 mac = Some s0"
    and "s = exec env es s0"
  shows "(boot s = BStart \<longrightarrow> sent_by Bootstrap s = []) \<and>
     (\<forall>deadline. boot s = BWait deadline \<longrightarrow>
        sent_by Bootstrap s = [] \<and> t0 + time_Second \<le> deadline \<and>
        (wall s < deadline \<longrightarrow> sendEmptyReport_step s = None) \<and>
        (deadline \<le> wall s \<longrightarrow>
           sendEmptyReport_step s =
             Some (s\<lparr>boot := BSending [standardReport (imuEnabled (proto s))]\<rparr>))) \<and>
     (\<forall>rs. boot s = BSending rs \<longrightarrow>
        sent_by Bootstrap s = [] \<and> t0 + time_Second \<le> wall s \<and>
        (\<exists>r. rs = [r] \<and> unsolicited r \<and>
           (length (buf (queue (proto s))) < 5 \<longrightarrow>
              (\<exists>s'. sendEmptyReport_step s = Some s' \<and> boot s' = BReturned \<and>
                 sent_by Bootstrap s' = [r])) \<and>
           (reader s \<noteq> RPanicked \<longrightarrow>
              boot (exec env [Run Writer, Run Bootstrap] s) = BReturned \<and>
              sent_by Bootstrap (exec env [Run Writer, Run Bootstrap] s) = [r]))) \<and>
     (boot s = BReturned \<longrightarrow>
        t0 + time_Second \<le> wall s \<and>
        (\<exists>r. sent_by Bootstrap s = [r] \<and> unsolicited r) \<and>
        sendEmptyReport_step s = None \<and>
        (\<forall>es'. boot (exec env es' s) = BReturned \<and>
           sent_by Bootstrap (exec env es' s) = sent_by Bootstrap s))"
proof -
  have b: "inv_boot t0 s" and q: "inv_queue s"
    unfolding assms(2)
    by (intro inv_boot_exec inv_queue_exec Setup_invariants [OF assms(1)])+
  from q have cap: "cap (queue (proto s)) = 5" by (simp add: inv_queue_def)
  show ?thesis
  proof (intro conjI allI impI)
    assume "boot s = BStart"
    with b show "sent_by Bootstrap s = []" by (simp add: inv_boot_def)
  next
    fix deadline assume w: "boot s = BWait deadline"
    with b show "sent_by Bootstrap s = []" "t0 + time_Second \<le> deadline"
      by (simp_all add: inv_boot_def)
    { assume "wall s < deadline"
      with w show "sendEmptyReport_step s = None"
        by (simp add: sendEmptyReport_step_def) }
    { assume "deadline \<le> wall s"
      with w show "sendEmptyReport_step s =
             Some (s\<lparr>boot := BSending [standardReport (imuEnabled (proto s))]\<rparr>)"
        by (simp add: sendEmptyReport_step_def processStandardFullReport_eq boot_after_def) }
  next
    fix rs assume sd: "boot s = BSending rs"
    with b show "sent_by Bootstrap s = []" "t0 + time_Second \<le> wall s"
      by (simp_all add: inv_boot_def)
    from sd b have none: "sent_by Bootstrap s = []" and len: "length rs = 1"
      and u: "list_all unsolicited rs"
      by (simp_all add: inv_boot_def)
    from len obtain r where rs: "rs = [r]"
      by (cases rs) auto
    with u have ur: "unsolicited r" by simp
    have one: "\<exists>s'. sendEmptyReport_step s = Some s' \<and> boot s' = BReturned \<and>
                 sent_by Bootstrap s' = [r]"
      if "length (buf (queue (proto s))) < 5"
      using boot_send_step [of s r] sd rs that cap none by (simp add: sent_by_def)
    have two: "boot (exec env [Run Writer, Run Bootstrap] s) = BReturned \<and>
              sent_by Bootstrap (exec env [Run Writer, Run Bootstrap] s) = [r]"
      if "reader s \<noteq> RPanicked"
      using boot_sends_after_writer [OF q _ that, of r env] sd rs none by simp
    from rs ur one two show "\<exists>r. rs = [r] \<and> unsolicited r \<and>
           (length (buf (queue (proto s))) < 5 \<longrightarrow>
              (\<exists>s'. sendEmptyReport_step s = Some s' \<and> boot s' = BReturned \<and>
                 sent_by Bootstrap s' = [r])) \<and>
           (reader s \<noteq> RPanicked \<longrightarrow>
              boot (exec env [Run Writer, Run Bootstrap] s) = BReturned \<and>
              sent_by Bootstrap (exec env [Run Writer, Run Bootstrap] s) = [r])"
      by blast
  next
    assume r: "boot s = BReturned"
    with b show "t0 + time_Second \<le> wall s" by (simp add: inv_boot_def)
    from r b have "length (sent_by Bootstrap s) = 1" "list_all unsolicited (sent_by Bootstrap s)"
      by (simp_all add: inv_boot_def)
    then show "\<exists>r. sent_by Bootstrap s = [r] \<and> unsolicited r"
      by (cases "sent_by Bootstrap s") auto
    from r show "sendEmptyReport_step s = None"
      by (simp add: sendEmptyReport_step_def)
    fix es'
    from boot_returned_exec [OF r, of env es']
    show "boot (exec env es' s) = BReturned"
      "sent_by Bootstrap (exec env es' s) = sent_by Bootstrap s"
      by simp_all
  qed
qed

theorem bootstrap_sends_once_witness:
  "Setup NewProtocol False 0 [] =
     Some \<lparr>proto = NewProtocol\<lparr>macAddr := []\<rparr>, wall = 0, boot = BStart, reader = RLoad,
           loads = 0, dispatched = [], sent = [], written = []\<rparr> \<and>
   boot (exec \<lparr>loadResult = (\<lambda>n. EAGAIN), writeOk = (\<lambda>n. True)\<rparr>
     [Run Bootstrap, Advance 999999999]
     \<lparr>proto = NewProtocol\<lparr>macAddr := []\<rparr>, wall = 0, boot = BStart, reader = RLoad,
      loads = 0, dispatched = [], sent = [], written = []\<rparr>) = BWait 1000000000 \<and>
   sendEmptyReport_step (exec \<lparr>loadResult = (\<lambda>n. EAGAIN), writeOk = (\<lambda>n. True)\<rparr>
     [Run Bootstrap, Advance 999999999]
     \<lparr>proto = NewProtocol\<lparr>macAddr := []\<rparr>, wall = 0, boot = BStart, reader = RLoad,
      loads = 0, dispatched = [], sent = [], written = []\<rparr>) = None \<and>
   boot (exec \<lparr>loadResult = (\<lambda>n. EAGAIN), writeOk = (\<lambda>n. True)\<rparr>
     [Run Bootstrap, Advance 1000000000, Run Bootstrap]
     \<lparr>proto = NewProtocol\<lparr>macAddr := []\<rparr>, wall = 0, boot = BStart, reader = RLoad,
      loads = 0, dispatched = [], sent = [], written = []\<rparr>) =
     BSending [standardReport False] \<and>
   boot (exec \<lparr>loadResult = (\<lambda>n. EAGAIN), writeOk = (\<lambda>n. True)\<rparr>
     [Run Bootstrap, Advance 1000000000, Run Bootstrap, Run Bootstrap]
     \<lparr>proto = NewProtocol\<lparr>macAddr := []\<rparr>, wall = 0, boot = BStart, reader = RLoad,
      loads = 0, dispatched = [], sent = [], written = []\<rparr>) = BReturned \<and>
   sent_by Bootstrap (exec \<lparr>loadResult = (\<lambda>n. EAGAIN), writeOk = (\<lambda>n. True)\<rparr>
     [Run Bootstrap, Advance 1000000000, Run Bootstrap, Run Bootstrap]
     \<lparr>proto = NewProtocol\<lparr>macAddr := []\<rparr>, wall = 0, boot = BStart, reader = RLoad,
      loads = 0, dispatched = [], sent = [], written = []\<rparr>) = [standardReport False] \<and>
   0 + time_Second \<le> wall (exec \<lparr>loadResult = (\<lambda>n. EAGAIN), writeOk = (\<lambda>n. True)\<rparr>
     [Run Bootstrap, Advance 1000000000, Run Bootstrap, Run Bootstrap]
     \<lparr>proto = NewProtocol\<lparr>macAddr := []\<rparr>, wall = 0, boot = BStart, reader = RLoad,
      loads = 0, dispatched = [], sent = [], written = []\<rparr>)"
  using
    bootstrap_sends_once
    [where env = "\<lparr>loadResult = (\<lambda>n. EAGAIN), writeOk = (\<lambda>n. True)\<rparr>"
       and ?t0.0 = 0 and mac = "[]"
       and ?s0.0 = "\<lparr>proto = NewProtocol\<lparr>macAddr := []\<rparr>, wall = 0, boot = BStart,
          reader = RLoad, loads = 0, dispatched = [], sent = [], written = []\<rparr>"
       and es = "[Run Bootstrap, Advance 999999999]",
     OF _ refl]
    bootstrap_sends_once
    [where env = "\<lparr>loadResult = (\<lambda>n. EAGAIN), writeOk = (\<lambda>n. True)\<rparr>"
       and ?t0.0 = 0 and mac = "[]"
       and ?s0.0 = "\<lparr>proto = NewProtocol\<lparr>macAddr := []\<rparr>, wall = 0, boot = BStart,
          reader = RLoad, loads = 0, dispatched = [], sent = [], written = []\<rparr>"
       and es = "[Run Bootstrap, Advance 1000000000, Run Bootstrap]",
     OF _ refl]
    bootstrap_sends_once
    [where env = "\<lparr>loadResult = (\<lambda>n. EAGAIN), writeOk = (\<lambda>n. True)\<rparr>"
       and ?t0.0 = 0 and mac = "[]"
       and ?s0.0 = "\<lparr>proto = NewProtocol\<lparr>macAddr := []\<rparr>, wall = 0, boot = BStart,
          reader = RLoad, loads = 0, dispatched = [], sent = [], written = []\<rparr>"
       and es = "[Run Bootstrap, Advance 1000000000, Run Bootstrap, Run Bootstrap]",
     OF _ refl]
  by (simp add: run_defs time_Second_def)

end
